theory Spec2Isabelle
  imports Complex_Main "HOL-Library.Sublist"
begin

section \<open>Progress aggregation (\<^verbatim>\<open>createSteps\<close>, \<^verbatim>\<open>withProgress\<close>)\<close>

text \<open>
  A JavaScript number is a value of a type \<open>'a\<close> that has \<open>0\<close>, \<open>1\<close>, \<open>+\<close>, \<open>*\<close> and \<open>/\<close>.
  The definitions assume no law of these operations, so they fix only the order in which
  the source combines its numbers. The strict comparison \<^verbatim>\<open>!==\<close> is disequality: the
  numbers are the ones that compare equal to themselves (every number but NaN).
  Theorems that speak of sums are stated for exact arithmetic (a field such as \<open>rat\<close>):
  the rounding of the source's double-precision operations is not modelled. They are
  stated for a total weight other than 0 only: there the source divides by zero and its
  output is NaN or an infinity, which a field has not (in a field \<open>x / 0 = 0\<close>).
\<close>

text \<open>
  The Error objects the model tells apart: a RangeError, a TypeError, and any other
  Error object.
\<close>

datatype js_error = RangeError | TypeError | OtherError

text \<open>
  The argument \<^verbatim>\<open>steps\<close> of \<^verbatim>\<open>createSteps\<close>: a number (a count of steps) or an array of
  weights. \<^verbatim>\<open>Array(n)\<close> raises RangeError unless \<open>n\<close> is an integer with \<open>0 \<le> n < 2^32\<close>;
  the count is a natural number and the upper bound is a branch of \<open>createSteps\<close>.
\<close>

datatype 'a steps = Count nat | Weights "'a list"

text \<open>
  The variables one call of \<^verbatim>\<open>createSteps\<close> closes over: the constants \<^verbatim>\<open>stepWeights\<close>,
  \<^verbatim>\<open>progressParts\<close> (an array mutated in place), \<^verbatim>\<open>totalSize\<close>, and the parameter
  \<^verbatim>\<open>progress\<close>, which \<^verbatim>\<open>updateProgress\<close> assigns to.
\<close>

record 'a aggregator =
  stepWeights :: "'a list"
  progressParts :: "'a list"
  totalSize :: 'a
  progress :: 'a

definition updateProgress ::
  "'a::{zero,plus,times,inverse} aggregator \<Rightarrow> 'a aggregator" where
  "updateProgress st =
     (let weightedAverage =
            foldl (\<lambda>acc (idx, weight). acc + progressParts st ! idx * weight) 0
              (zip [0..<length (stepWeights st)] (stepWeights st))
      in st\<lparr>progress := weightedAverage / totalSize st\<rparr>)"

text \<open>
  The callback made for index \<open>idx\<close>. Its own parameter is called \<^verbatim>\<open>progress\<close> in the
  source and shadows the outer one only inside the arrow function; here it is \<open>p\<close>.
  Callbacks exist for \<open>idx < length stepWeights\<close> only, where the read and the write of
  \<^verbatim>\<open>progressParts[idx]\<close> are in range.
\<close>

definition callback ::
  "nat \<Rightarrow> 'a::{zero,plus,times,inverse} \<Rightarrow> 'a aggregator \<Rightarrow> 'a aggregator" where
  "callback idx p st =
     (if progressParts st ! idx \<noteq> p
      then updateProgress (st\<lparr>progressParts := (progressParts st)[idx := p]\<rparr>)
      else st)"

definition createSteps ::
  "'a::{zero,one,plus,times,inverse} steps \<Rightarrow> 'a \<Rightarrow> js_error + 'a aggregator" where
  "createSteps steps p0 =
     (case (case steps of
              Count n \<Rightarrow> if n < 2 ^ 32 then Inr (replicate n 1) else Inl RangeError
            | Weights ws \<Rightarrow> Inr ws) of
        Inl e \<Rightarrow> Inl e
      | Inr ws \<Rightarrow>
          Inr \<lparr>stepWeights = ws,
               progressParts = replicate (length ws) 0,
               totalSize = foldl (\<lambda>total weight. total + weight) 0 ws,
               progress = p0\<rparr>)"

text \<open>The array \<^verbatim>\<open>createSteps\<close> returns: one callback per weight, in index order.\<close>

definition callbacks ::
  "'a::{zero,plus,times,inverse} aggregator \<Rightarrow> ('a \<Rightarrow> 'a aggregator \<Rightarrow> 'a aggregator) list" where
  "callbacks st = map callback [0..<length (stepWeights st)]"

text \<open>
  A step handed to \<^verbatim>\<open>withProgress\<close>, as the arrow function in it sees the step: a number,
  or an object with its \<^verbatim>\<open>size\<close> and \<^verbatim>\<open>length\<close> properties (\<open>None\<close> when the property is
  undefined).
\<close>

datatype 'a jsstep = Number 'a | Object "'a option" "'a option"

text \<open>\<^verbatim>\<open>a || b\<close> on optional numbers: \<open>a\<close> when it is truthy (defined and not zero).\<close>

definition truthy :: "'a::zero option \<Rightarrow> bool" where
  "truthy v = (case v of None \<Rightarrow> False | Some x \<Rightarrow> x \<noteq> 0)"

definition js_or :: "'a::zero option \<Rightarrow> 'a option \<Rightarrow> 'a option" where
  "js_or a b = (if truthy a then a else b)"

fun stepWeight :: "'a::{zero,one} jsstep \<Rightarrow> 'a" where
  "stepWeight (Number x) = x"
| "stepWeight (Object sz len) =
     (case js_or (js_or sz len) (Some 1) of Some w \<Rightarrow> w | None \<Rightarrow> 1)"

text \<open>
  \<^verbatim>\<open>withProgress\<close>: \<open>view\<close> says how JavaScript sees a step of type \<open>'s\<close>. The result
  pairs every step with the index of its callback; the aggregator the callbacks share
  is returned beside the pairs.
\<close>

definition withProgress ::
  "('s \<Rightarrow> 'a::{zero,one,plus,times,inverse} jsstep) \<Rightarrow> 's list \<Rightarrow> 'a
     \<Rightarrow> js_error + (('s \<times> nat) list \<times> 'a aggregator)" where
  "withProgress view steps p0 =
     (case createSteps (Weights (map (\<lambda>step. stepWeight (view step)) steps)) p0 of
        Inl e \<Rightarrow> Inl e
      | Inr st \<Rightarrow> Inr (zip steps [0..<length steps], st))"

text \<open>
  The quantities the specification names: the value last reported for a task in a
  sequence of updates (0 when there is none), and the weight-normalised sum.
\<close>

definition lastReported :: "(nat \<times> 'a::zero) list \<Rightarrow> nat \<Rightarrow> 'a" where
  "lastReported us i =
     (let reported = map snd (filter (\<lambda>(j, v). j = i) us)
      in if reported = [] then 0 else last reported)"

definition normalisedSum :: "(nat \<Rightarrow> 'a::field) \<Rightarrow> 'a list \<Rightarrow> 'a" where
  "normalisedSum p W = (\<Sum>i<length W. p i * W ! i) / (\<Sum>i<length W. W ! i)"

text \<open>A sequence of callback invocations: (index of the callback, value passed).\<close>

definition runUpdates ::
  "(nat \<times> 'a::{zero,plus,times,inverse}) list \<Rightarrow> 'a aggregator \<Rightarrow> 'a aggregator" where
  "runUpdates us st = foldl (\<lambda>a (idx, p). callback idx p a) st us"

text \<open>
  What \<^verbatim>\<open>createSteps\<close> establishes and every callback keeps (\<open>wellFormed\<close>), and the
  state in which the output is the weight-normalised sum of the recorded values
  (\<open>averaged\<close>).
\<close>

definition wellFormed :: "'a::field list \<Rightarrow> 'a aggregator \<Rightarrow> bool" where
  "wellFormed W st \<longleftrightarrow>
     stepWeights st = W \<and> length (progressParts st) = length W
     \<and> totalSize st = (\<Sum>i<length W. W ! i)"

definition averaged :: "'a::field aggregator \<Rightarrow> bool" where
  "averaged st \<longleftrightarrow>
     aggregator.progress st = normalisedSum (\<lambda>i. progressParts st ! i) (stepWeights st)"

section \<open>Device recognition (\<^verbatim>\<open>isRecognizedDevice\<close>)\<close>

text \<open>
  \<^verbatim>\<open>deviceInfo\<close> is the object built from the device's variables: its keys in
  \<^verbatim>\<open>Object.keys\<close> order with their values, all strings. Characters are the ASCII
  characters of fastboot variable names.
\<close>

type_synonym deviceInfo = "(string \<times> string) list"

definition startsWith :: "string \<Rightarrow> string \<Rightarrow> bool" where
  "startsWith s p = prefix p s"

definition endsWith :: "string \<Rightarrow> string \<Rightarrow> bool" where
  "endsWith s x = suffix x s"

definition expectedPartitions :: "string list" where
  "expectedPartitions =
    [''ALIGN_TO_128K_1'', ''ALIGN_TO_128K_2'', ''ImageFv'', ''abl'', ''aop'', ''apdp'', ''bluetooth'',
     ''boot'', ''cache'', ''cdt'', ''cmnlib'', ''cmnlib64'', ''ddr'', ''devcfg'', ''devinfo'', ''dip'',
     ''dsp'', ''fdemeta'', ''frp'', ''fsc'', ''fsg'', ''hyp'', ''keymaster'', ''keystore'', ''limits'',
     ''logdump'', ''logfs'', ''mdtp'', ''mdtpsecapp'', ''misc'', ''modem'', ''modemst1'', ''modemst2'',
     ''msadp'', ''persist'', ''qupfw'', ''rawdump'', ''sec'', ''splash'', ''spunvm'', ''ssd'', ''sti'',
     ''storsec'', ''system'', ''systemrw'', ''toolsfv'', ''tz'', ''userdata'', ''vm-linux'',
     ''vm-system'', ''xbl'', ''xbl_config'']"

text \<open>The loop over \<^verbatim>\<open>Object.keys(deviceInfo)\<close>, with the array \<^verbatim>\<open>partitions\<close> it fills.\<close>

fun collectPartitions :: "string list \<Rightarrow> string list \<Rightarrow> string list" where
  "collectPartitions [] partitions = partitions"
| "collectPartitions (key # keys) partitions =
     (if \<not> startsWith key ''partition-type:'' then collectPartitions keys partitions
      else
        let partition = drop (length ''partition-type:'') key;
            partition' =
              (if endsWith partition ''_a'' \<or> endsWith partition ''_b''
               then take (length partition - 2) partition
               else partition)
        in if partition' \<in> set partitions then collectPartitions keys partitions
           else collectPartitions keys (partitions @ [partition']))"

definition partitionsOf :: "deviceInfo \<Rightarrow> string list" where
  "partitionsOf deviceInfo = collectPartitions (map fst deviceInfo) []"

definition isRecognizedDevice :: "deviceInfo \<Rightarrow> bool" where
  "isRecognizedDevice deviceInfo =
     (if map_of deviceInfo ''kernel'' \<noteq> Some ''uefi''
         \<or> map_of deviceInfo ''max-download-size'' \<noteq> Some ''104857600''
         \<or> map_of deviceInfo ''slot-count'' \<noteq> Some ''2''
      then False
      else if \<not> list_all (\<lambda>partition. partition \<in> set expectedPartitions)
                  (partitionsOf deviceInfo)
      then False
      else if (case map_of deviceInfo ''serialno'' of None \<Rightarrow> True | Some v \<Rightarrow> v = [])
      then False
      else True)"

text \<open>
  The partition-name set as the specification describes it: every key
  \<^verbatim>\<open>partition-type:<name>\<close>, with a slot suffix \<^verbatim>\<open>_a\<close> or \<^verbatim>\<open>_b\<close> of the name removed.
\<close>

definition stripSlot :: "string \<Rightarrow> string" where
  "stripSlot n = (if suffix ''_a'' n \<or> suffix ''_b'' n then take (length n - 2) n else n)"

definition partitionNames :: "deviceInfo \<Rightarrow> string set" where
  "partitionNames deviceInfo =
     {stripSlot n | n. ''partition-type:'' @ n \<in> fst ` set deviceInfo}"

section \<open>The flashing orchestrator (\<^verbatim>\<open>useFastboot\<close>)\<close>

datatype Step = READY | CONNECTING | DOWNLOADING | UNPACKING | FLASHING | ERASING | DONE

text \<open>The numbers of the \<^verbatim>\<open>Step\<close> object.\<close>

fun stepIndex :: "Step \<Rightarrow> nat" where
  "stepIndex READY = 0"
| "stepIndex CONNECTING = 1"
| "stepIndex DOWNLOADING = 2"
| "stepIndex UNPACKING = 3"
| "stepIndex FLASHING = 4"
| "stepIndex ERASING = 5"
| "stepIndex DONE = 6"

datatype Error =
    UNKNOWN | NONE | UNRECOGNIZED_DEVICE | LOST_CONNECTION | DOWNLOAD_FAILED | UNPACK_FAILED
  | CHECKSUM_MISMATCH | FLASH_FAILED | ERASE_FAILED | REQUIREMENTS_NOT_MET

text \<open>
  Modelled from the spec: the \<^verbatim>\<open>Image\<close> type of the manifest module, which is not among
  the sources. An image has a name, a size in bytes (\<open>None\<close> when the manifest entry has
  none), a sparse flag and a checksum; it has no \<^verbatim>\<open>length\<close> property.
\<close>

record image =
  name :: string
  size_bytes :: "rat option"
  sparse :: bool
  checksum :: string

definition imageStep :: "image \<Rightarrow> rat jsstep" where
  "imageStep img = Object (size_bytes img) None"

text \<open>
  The requests the orchestrator sends to the device and to the image worker. The
  progress callback and the blob of a request are left out.
\<close>

datatype request =
    WaitForConnect
  | Connect
  | GetVariable string
  | DownloadImage image
  | UnpackImage image
  | GetImage image
  | GetFile image
  | RunCommand string
  | FlashBlob string string

text \<open>
  The reactive variables of \<^verbatim>\<open>useFastboot\<close>, and \<^verbatim>\<open>initializePromise\<close> (\<open>Some r\<close>: a
  promise settled with \<open>r\<close> is stored). \<open>onRetry\<close> is \<open>True\<close> once the retry action is
  assigned to the variable. The record holds the variables themselves; the object that
  \<^verbatim>\<open>useFastboot\<close> returns is built once, from the values they have at the call.
  \<open>issued\<close> is not a variable of the source: it records the requests sent so far, in
  order.
\<close>

record session =
  step :: Step
  message :: string
  progress :: rat
  error :: Error
  isInitialized :: bool
  connected :: bool
  serial :: "string option"
  onRetry :: bool
  manifest :: "image list option"
  initializePromise :: "bool option"
  issued :: "request list"

definition useFastboot :: session where
  "useFastboot =
     \<lparr>step = READY, message = [], progress = - 1, error = NONE, isInitialized = False,
      connected = False, serial = None, onRetry = False, manifest = None,
      initializePromise = None, issued = []\<rparr>"

text \<open>
  What \<^verbatim>\<open>initialize\<close> finds: whether \<^verbatim>\<open>navigator.usb\<close>, \<^verbatim>\<open>Worker\<close> and \<^verbatim>\<open>Storage\<close> are
  defined, whether \<^verbatim>\<open>imageWorker\<close> is, and what the \<^verbatim>\<open>try\<close> block obtains: \<open>None\<close> when
  \<^verbatim>\<open>imageWorker.init\<close>, the download, \<^verbatim>\<open>blob.text\<close> or \<^verbatim>\<open>createManifest\<close> throws, and
  \<open>Some m\<close> when \<^verbatim>\<open>createManifest\<close> returns the manifest \<open>m\<close>.
\<close>

record environment =
  usb :: bool
  worker :: bool
  storage :: bool
  imageWorker :: bool
  loaded :: "image list option"

text \<open>
  \<^verbatim>\<open>initialize\<close>, run to completion; the result is the value its promise settles with.
  A caller that finds a promise in flight awaits that promise, which has the same
  outcome. The three capability checks and the missing worker return inside the async
  function before its \<^verbatim>\<open>try\<close>, so its \<^verbatim>\<open>finally\<close> does not clear \<^verbatim>\<open>initializePromise\<close>.
\<close>

definition initialize :: "environment \<Rightarrow> session \<Rightarrow> bool \<times> session" where
  "initialize env s =
     (if isInitialized s then (True, s)
      else case initializePromise s of
        Some r \<Rightarrow> (r, s)
      | None \<Rightarrow>
          if \<not> usb env
          then (False, s\<lparr>error := REQUIREMENTS_NOT_MET, initializePromise := Some False\<rparr>)
          else if \<not> worker env
          then (False, s\<lparr>error := REQUIREMENTS_NOT_MET, initializePromise := Some False\<rparr>)
          else if \<not> storage env
          then (False, s\<lparr>error := REQUIREMENTS_NOT_MET, initializePromise := Some False\<rparr>)
          else if \<not> imageWorker env
          then (False, s\<lparr>initializePromise := Some False\<rparr>)
          else case loaded env of
            None \<Rightarrow> (False, s\<lparr>error := UNKNOWN\<rparr>)
          | Some m \<Rightarrow>
              let s1 = s\<lparr>manifest := Some m\<rparr>
              in if length m = 0 then (False, s1\<lparr>error := UNKNOWN\<rparr>)
                 else (True, s1\<lparr>isInitialized := True\<rparr>))"

definition handleContinue :: "environment \<Rightarrow> session \<Rightarrow> session" where
  "handleContinue env s =
     (let s1 = (if \<not> isInitialized s then snd (initialize env s) else s)
      in if error s1 \<noteq> NONE then s1 else s1\<lparr>step := CONNECTING\<rparr>)"

text \<open>
  A value thrown inside a stage, or that a request rejects with: a string, or an Error
  object. The device library and the image worker are known by their interfaces only,
  which do not say which of the two a rejection carries.
\<close>

datatype thrown = Str string | Exception js_error

text \<open>
  What the device and the worker answer during one run of a stage.
  \<open>waited\<close>: how the chain on \<^verbatim>\<open>waitForConnect\<close> ends: the promise stays pending or
  rejects, or \<^verbatim>\<open>getVariable('all')\<close> rejects (or its value cannot be split), or it
  resolves and the \<^verbatim>\<open>reduce\<close> over its lines gives the object \<open>deviceInfo\<close>.
  \<open>connectRejected\<close>: whether \<^verbatim>\<open>connect\<close> rejects, and \<open>connectFirst\<close>: whether its handler
  runs before the other chain's.
  \<open>currentSlot\<close>: the value of \<^verbatim>\<open>current-slot\<close> (\<open>None\<close> for null).
  \<open>rejects n\<close>: the value the request that becomes entry \<open>n\<close> of \<open>issued\<close> rejects with,
  if it does.
\<close>

datatype waitForConnect_outcome =
  Pending | WaitRejected | GetAllRejected | GetAllResolved deviceInfo

record outcome =
  waited :: waitForConnect_outcome
  connectRejected :: bool
  connectFirst :: bool
  currentSlot :: "string option"
  rejects :: "nat \<Rightarrow> thrown option"

text \<open>\<^verbatim>\<open>await\<close> of one request: the request is recorded, and it resolves or rejects.\<close>

definition await_request :: "outcome \<Rightarrow> request \<Rightarrow> session \<Rightarrow> thrown option \<times> session" where
  "await_request oc r s = (rejects oc (length (issued s)), s\<lparr>issued := issued s @ [r]\<rparr>)"

text \<open>
  The CONNECTING case: it calls \<^verbatim>\<open>waitForConnect\<close> and \<^verbatim>\<open>connect\<close> (\<open>startConnecting\<close>) and
  puts a chain of handlers on each of the two promises, which settle independently of
  each other. \<open>onWaitForConnect\<close> and \<open>onConnect\<close> are what the two chains do when their
  promise settles.
\<close>

definition startConnecting :: "session \<Rightarrow> session" where
  "startConnecting s = s\<lparr>issued := issued s @ [WaitForConnect, Connect]\<rparr>"

definition onWaitForConnect :: "outcome \<Rightarrow> session \<Rightarrow> session" where
  "onWaitForConnect oc s =
     (case waited oc of
        Pending \<Rightarrow> s
      | WaitRejected \<Rightarrow> s\<lparr>error := LOST_CONNECTION, connected := False\<rparr>
      | GetAllRejected \<Rightarrow> s\<lparr>issued := issued s @ [GetVariable ''all''], error := UNKNOWN\<rparr>
      | GetAllResolved deviceInfo \<Rightarrow>
          let s1 = s\<lparr>issued := issued s @ [GetVariable ''all'']\<rparr>;
              recognized = isRecognizedDevice deviceInfo
          in if \<not> recognized then s1\<lparr>error := UNRECOGNIZED_DEVICE\<rparr>
             else s1\<lparr>serial :=
                        Some (case map_of deviceInfo ''serialno'' of
                                None \<Rightarrow> ''unknown''
                              | Some v \<Rightarrow> if v = [] then ''unknown'' else v),
                     connected := True,
                     step := DOWNLOADING\<rparr>)"

definition onConnect :: "outcome \<Rightarrow> session \<Rightarrow> session" where
  "onConnect oc s = (if connectRejected oc then s\<lparr>step := READY\<rparr> else s)"

text \<open>Both chains of one run of the CONNECTING case, settled in either order.\<close>

definition connecting :: "outcome \<Rightarrow> session \<Rightarrow> session" where
  "connecting oc s =
     (let s1 = startConnecting s
      in if connectFirst oc then onWaitForConnect oc (onConnect oc s1)
         else onConnect oc (onWaitForConnect oc s1))"

text \<open>The loops of the async functions, over the pairs \<^verbatim>\<open>withProgress\<close> returns.\<close>

fun downloadLoop :: "outcome \<Rightarrow> (image \<times> nat) list \<Rightarrow> session \<Rightarrow> thrown option \<times> session" where
  "downloadLoop oc [] s = (None, s)"
| "downloadLoop oc ((img, onProgress) # rest) s =
     (case await_request oc (DownloadImage img) (s\<lparr>message := ''Downloading '' @ name img\<rparr>) of
        (Some err, s1) \<Rightarrow> (Some err, s1)
      | (None, s1) \<Rightarrow> downloadLoop oc rest s1)"

fun unpackLoop :: "outcome \<Rightarrow> (image \<times> nat) list \<Rightarrow> session \<Rightarrow> thrown option \<times> session" where
  "unpackLoop oc [] s = (None, s)"
| "unpackLoop oc ((img, onProgress) # rest) s =
     (case await_request oc (UnpackImage img) (s\<lparr>message := ''Unpacking '' @ name img\<rparr>) of
        (Some err, s1) \<Rightarrow> (Some err, s1)
      | (None, s1) \<Rightarrow> unpackLoop oc rest s1)"

fun flashLoop :: "outcome \<Rightarrow> (image \<times> nat) list \<Rightarrow> session \<Rightarrow> thrown option \<times> session" where
  "flashLoop oc [] s = (None, s)"
| "flashLoop oc ((img, onProgress) # rest) s =
     (case await_request oc (GetImage img) s of
        (Some err, s1) \<Rightarrow> (Some err, s1)
      | (None, s1) \<Rightarrow>
     (case await_request oc (GetFile img) s1 of
        (Some err, s2) \<Rightarrow> (Some err, s2)
      | (None, s2) \<Rightarrow>
     (case (if sparse img
            then await_request oc (RunCommand (''erase:'' @ name img))
                   (s2\<lparr>message := ''Erasing '' @ name img\<rparr>)
            else (None, s2)) of
        (Some err, s3) \<Rightarrow> (Some err, s3)
      | (None, s3) \<Rightarrow>
     (case await_request oc (FlashBlob (name img) ''other'')
             (s3\<lparr>message := ''Flashing '' @ name img\<rparr>) of
        (Some err, s4) \<Rightarrow> (Some err, s4)
      | (None, s4) \<Rightarrow> flashLoop oc rest s4))))"

text \<open>
  \<^verbatim>\<open>withProgress(manifest, progress)\<close> at a call site: the number \<^verbatim>\<open>progress\<close> is
  passed by value, so the callbacks assign to the parameter of \<^verbatim>\<open>createSteps\<close> and the
  session's \<^verbatim>\<open>progress\<close> is not changed by them. A null manifest makes \<^verbatim>\<open>steps.map\<close>
  throw a TypeError.
\<close>

definition manifestSteps :: "session \<Rightarrow> thrown + (image \<times> nat) list" where
  "manifestSteps s =
     (case manifest s of
        None \<Rightarrow> Inl (Exception TypeError)
      | Some m \<Rightarrow>
          (case withProgress imageStep m (progress s) of
             Inl e \<Rightarrow> Inl (Exception e)
           | Inr (pairs, st) \<Rightarrow> Inr pairs))"

definition downloadImages :: "outcome \<Rightarrow> session \<Rightarrow> thrown option \<times> session" where
  "downloadImages oc s =
     (case manifestSteps s of Inl e \<Rightarrow> (Some e, s) | Inr pairs \<Rightarrow> downloadLoop oc pairs s)"

definition unpackImages :: "outcome \<Rightarrow> session \<Rightarrow> thrown option \<times> session" where
  "unpackImages oc s =
     (case manifestSteps s of Inl e \<Rightarrow> (Some e, s) | Inr pairs \<Rightarrow> unpackLoop oc pairs s)"

definition flashDevice :: "outcome \<Rightarrow> session \<Rightarrow> thrown option \<times> session" where
  "flashDevice oc s =
     (case await_request oc (GetVariable ''current-slot'') s of
        (Some err, s1) \<Rightarrow> (Some err, s1)
      | (None, s1) \<Rightarrow>
          if currentSlot oc \<notin> set [Some ''a'', Some ''b'']
          then (Some (Str (''Unknown current slot ''
                            @ (case currentSlot oc of None \<Rightarrow> ''null'' | Some c \<Rightarrow> c))), s1)
          else
            (case manifestSteps s1 of
               Inl e \<Rightarrow> (Some e, s1)
             | Inr pairs \<Rightarrow>
                 (case flashLoop oc pairs s1 of
                    (Some err, s2) \<Rightarrow> (Some err, s2)
                  | (None, s2) \<Rightarrow>
                      let otherSlot = (if currentSlot oc = Some ''a'' then ''b'' else ''a'')
                      in await_request oc (RunCommand (''set_active:'' @ otherSlot))
                           (s2\<lparr>message := ''Changing slot to '' @ otherSlot\<rparr>))))"

text \<open>
  \<^verbatim>\<open>eraseDevice\<close> awaits two commands and assigns \<^verbatim>\<open>progress\<close> after each.
\<close>

definition eraseDevice :: "outcome \<Rightarrow> session \<Rightarrow> thrown option \<times> session" where
  "eraseDevice oc s =
     (case await_request oc (RunCommand ''erase:userdata'') (s\<lparr>message := ''Erasing userdata''\<rparr>) of
        (Some err, s1) \<Rightarrow> (Some err, s1)
      | (None, s1) \<Rightarrow>
          (case await_request oc (RunCommand ''continue'')
                  (s1\<lparr>progress := 9 / 10, message := ''Rebooting''\<rparr>) of
             (Some err, s2) \<Rightarrow> (Some err, s2)
           | (None, s2) \<Rightarrow> (None, s2\<lparr>progress := 1, connected := False\<rparr>)))"

text \<open>
  The three segments of \<^verbatim>\<open>eraseDevice\<close> that its two \<^verbatim>\<open>await\<close>s separate: up to the sending
  of \<^verbatim>\<open>erase:userdata\<close>; from the resolving of that command up to the sending of
  \<^verbatim>\<open>continue\<close>; and from the resolving of \<^verbatim>\<open>continue\<close> to the end. Other callbacks can run
  between two segments.
\<close>

definition eraseStart :: "session \<Rightarrow> session" where
  "eraseStart s =
     s\<lparr>message := ''Erasing userdata'', issued := issued s @ [RunCommand ''erase:userdata'']\<rparr>"

definition eraseResolved :: "session \<Rightarrow> session" where
  "eraseResolved s =
     s\<lparr>progress := 9 / 10, message := ''Rebooting'',
       issued := issued s @ [RunCommand ''continue'']\<rparr>"

definition rebootResolved :: "session \<Rightarrow> session" where
  "rebootResolved s = s\<lparr>progress := 1, connected := False\<rparr>"

text \<open>
  The effect that switches on \<^verbatim>\<open>step\<close>, in two parts. \<open>stage_start\<close> is what a run of the
  effect does itself: it resets \<^verbatim>\<open>progress\<close> and \<^verbatim>\<open>message\<close>, returns when an error is
  set, and otherwise enters the case of the step, where the four working stages put
  \<^verbatim>\<open>progress\<close> to 0. \<open>stage_work k\<close> is the asynchronous work the case of step \<open>k\<close> starts,
  with the handlers on its promise, under the outcome \<open>oc\<close>. In the handler of a failed
  unpack, \<^verbatim>\<open>err.startsWith\<close> is applied to the value the promise rejected with; an Error
  object has no such method, so for it the call throws a TypeError inside the handler,
  which assigns nothing.
\<close>

definition stage_start :: "session \<Rightarrow> session" where
  "stage_start s0 =
     (let s = s0\<lparr>progress := - 1, message := []\<rparr>
      in if error s \<noteq> NONE then s
         else case step s of
           DOWNLOADING \<Rightarrow> s\<lparr>progress := 0\<rparr>
         | UNPACKING \<Rightarrow> s\<lparr>progress := 0\<rparr>
         | FLASHING \<Rightarrow> s\<lparr>progress := 0\<rparr>
         | ERASING \<Rightarrow> s\<lparr>progress := 0\<rparr>
         | _ \<Rightarrow> s)"

definition stage_work :: "Step \<Rightarrow> outcome \<Rightarrow> session \<Rightarrow> session" where
  "stage_work k oc s =
     (case k of
        CONNECTING \<Rightarrow> connecting oc s
      | DOWNLOADING \<Rightarrow>
          (case downloadImages oc s of
             (None, s1) \<Rightarrow> s1\<lparr>step := UNPACKING\<rparr>
           | (Some err, s1) \<Rightarrow> s1\<lparr>error := DOWNLOAD_FAILED\<rparr>)
      | UNPACKING \<Rightarrow>
          (case unpackImages oc s of
             (None, s1) \<Rightarrow> s1\<lparr>step := FLASHING\<rparr>
           | (Some (Str err), s1) \<Rightarrow>
               if startsWith err ''Checksum mismatch''
               then s1\<lparr>error := CHECKSUM_MISMATCH\<rparr>
               else s1\<lparr>error := UNPACK_FAILED\<rparr>
           | (Some (Exception e), s1) \<Rightarrow> s1)
      | FLASHING \<Rightarrow>
          (case flashDevice oc s of
             (None, s1) \<Rightarrow> s1\<lparr>step := ERASING\<rparr>
           | (Some err, s1) \<Rightarrow> s1\<lparr>error := FLASH_FAILED\<rparr>)
      | ERASING \<Rightarrow>
          (case eraseDevice oc s of
             (None, s1) \<Rightarrow> s1\<lparr>step := DONE\<rparr>
           | (Some err, s1) \<Rightarrow> s1\<lparr>error := ERASE_FAILED\<rparr>)
      | _ \<Rightarrow> s)"

text \<open>
  One run of the effect with the work it starts run to completion at once.
\<close>

definition stage_effect :: "outcome \<Rightarrow> session \<Rightarrow> session" where
  "stage_effect oc s0 =
     (let s = stage_start s0
      in if error s \<noteq> NONE then s else stage_work (step s) oc s)"

text \<open>The effect on \<^verbatim>\<open>error\<close>.\<close>

definition error_effect :: "session \<Rightarrow> session" where
  "error_effect s = (if error s \<noteq> NONE then s\<lparr>progress := - 1, onRetry := True\<rparr> else s)"

text \<open>
  The events of a session in which the work of every stage is run to completion before
  the next event (the single control flow of the specification): a call of
  \<^verbatim>\<open>initialize\<close>, the user's \<^verbatim>\<open>onContinue\<close>, and a run of the stage effect together with its
  work. The effect on \<^verbatim>\<open>error\<close> depends on \<^verbatim>\<open>error\<close> alone: it runs again when \<^verbatim>\<open>error\<close>
  has changed, before the session is observed.
\<close>

datatype event = Initialize environment | Continue environment | StageRun outcome

definition dispatch :: "event \<Rightarrow> session \<Rightarrow> session" where
  "dispatch ev s =
     (let s1 = (case ev of
                  Initialize env \<Rightarrow> snd (initialize env s)
                | Continue env \<Rightarrow> handleContinue env s
                | StageRun oc \<Rightarrow> stage_effect oc s)
      in if error s1 \<noteq> error s then error_effect s1 else s1)"

definition run :: "event list \<Rightarrow> session \<Rightarrow> session" where
  "run evs s = foldl (\<lambda>s1 ev. dispatch ev s1) s evs"

inductive reachable :: "session \<Rightarrow> bool" where
  start: "reachable useFastboot"
| after: "reachable s \<Longrightarrow> reachable (dispatch ev s)"

text \<open>
  A trace of a session with work in flight: the callbacks that ran, in the order in
  which they ran, applied to the session one after the other. The entries of a trace
  are the functions above: \<open>handleContinue\<close> for a click on the button, which the
  component binds to \<^verbatim>\<open>onContinue\<close> at every step; \<open>stage_start\<close> and \<open>error_effect\<close> for a
  run of an effect; \<open>startConnecting\<close> and \<open>eraseStart\<close> for the calls with which the
  CONNECTING and the ERASING case start their work; and, for the settling of a promise,
  the handler or the segment that awaits it. Nothing in the source cancels the work of
  a stage when \<^verbatim>\<open>step\<close> or \<^verbatim>\<open>error\<close> changes, and the interfaces of the device library and
  of the image worker do not bound the time a promise takes to settle, so a handler may
  run after other callbacks have changed the session. Where a trace has \<open>stage_effect\<close>
  as an entry, the work of that stage settles before the next callback.
\<close>

definition replay :: "(session \<Rightarrow> session) list \<Rightarrow> session \<Rightarrow> session" where
  "replay hs s = foldl (\<lambda>s1 h. h s1) s hs"

text \<open>
  The requests the specification lists for one image of the FLASHING stage, and the
  test for a slot-activation command.
\<close>

definition imageRequests :: "image \<Rightarrow> request list" where
  "imageRequests img =
     [GetImage img, GetFile img]
     @ (if sparse img then [RunCommand (''erase:'' @ name img)] else [])
     @ [FlashBlob (name img) ''other'']"

definition isSetActive :: "request \<Rightarrow> bool" where
  "isSetActive r = (case r of RunCommand c \<Rightarrow> prefix ''set_active:'' c | _ \<Rightarrow> False)"

text \<open>
  Inputs of the examples: a manifest of two images, the second sparse; a browser with
  every capability that loads this manifest; the variables of a device; a device on
  slot a for which every request resolves while the chain on \<^verbatim>\<open>waitForConnect\<close> stays
  pending.
\<close>

definition exampleManifest :: "image list" where
  "exampleManifest =
     [\<lparr>name = ''boot'', size_bytes = Some 100, sparse = False, checksum = ''c1''\<rparr>,
      \<lparr>name = ''system'', size_bytes = Some 300, sparse = True, checksum = ''c2''\<rparr>]"

definition supportedBrowser :: environment where
  "supportedBrowser =
     \<lparr>usb = True, worker = True, storage = True, imageWorker = True,
      loaded = Some exampleManifest\<rparr>"

definition exampleDevice :: deviceInfo where
  "exampleDevice =
     [(''kernel'', ''uefi''), (''max-download-size'', ''104857600''), (''slot-count'', ''2''),
      (''partition-type:boot_a'', ''raw''), (''partition-type:boot_b'', ''raw''),
      (''partition-type:userdata'', ''ext4''), (''serialno'', ''1a2b3c4d'')]"

definition resolving :: outcome where
  "resolving =
     \<lparr>waited = Pending, connectRejected = False, connectFirst = False,
      currentSlot = Some ''a'', rejects = (\<lambda>n. None)\<rparr>"

text \<open>
  Two traces from the initial session. In both the browser loads the manifest and the
  effects run once at the mount.

  \<open>lostSecondConnect\<close>: the user clicks; \<^verbatim>\<open>connect\<close> rejects, which puts the step back to
  READY while the promise of \<^verbatim>\<open>waitForConnect\<close> stays pending; the user clicks again, and
  the second \<^verbatim>\<open>waitForConnect\<close> rejects, which sets the error; the two effects run.

  \<open>lostWhileErasing\<close>: the user clicks, the device is recognized, and the DOWNLOADING,
  UNPACKING and FLASHING stages complete, each stage effect running once; the stage
  effect runs at ERASING, where \<^verbatim>\<open>eraseDevice\<close> sends \<^verbatim>\<open>erase:userdata\<close>; the user clicks
  again while the command is in flight, and this \<^verbatim>\<open>waitForConnect\<close> rejects, which sets
  the error; the two effects run.
\<close>

definition lostSecondConnect :: "(session \<Rightarrow> session) list" where
  "lostSecondConnect =
     [stage_start, error_effect, snd \<circ> initialize supportedBrowser,
      handleContinue supportedBrowser, stage_start, startConnecting,
      onConnect (resolving\<lparr>connectRejected := True\<rparr>), stage_start,
      handleContinue supportedBrowser, stage_start, startConnecting,
      onWaitForConnect (resolving\<lparr>waited := WaitRejected\<rparr>), stage_start, error_effect]"


text \<open>The variables that no request and no label of a stage changes.\<close>

definition frame :: "session \<Rightarrow> session \<Rightarrow> bool" where
  "frame s s' \<longleftrightarrow>
     step s' = step s \<and> error s' = error s \<and> onRetry s' = onRetry s
     \<and> manifest s' = manifest s \<and> isInitialized s' = isInitialized s
     \<and> initializePromise s' = initializePromise s"

section \<open>Properties\<close>

subsection \<open>The aggregator\<close>

lemma foldl_weighted:
  fixes ps :: "'a::semiring_0 list"
  shows "foldl (\<lambda>acc (idx, weight). acc + ps ! idx * weight) a (zip [0..<length ws] ws)
           = a + (\<Sum>i<length ws. ps ! i * ws ! i)"
proof (induction ws rule: rev_induct)
  case Nil
  show ?case by simp
next
  case (snoc w ws)
  have "(\<Sum>i<length ws. ps ! i * (ws @ [w]) ! i) = (\<Sum>i<length ws. ps ! i * ws ! i)"
    by (rule sum.cong) (simp_all add: nth_append)
  with snoc show ?case
    by (simp add: add.assoc)
qed

lemma foldl_total:
  fixes ws :: "'a::comm_monoid_add list"
  shows "foldl (\<lambda>total weight. total + weight) a ws = a + (\<Sum>i<length ws. ws ! i)"
proof (induction ws rule: rev_induct)
  case Nil
  show ?case by simp
next
  case (snoc w ws)
  have "(\<Sum>i<length ws. (ws @ [w]) ! i) = (\<Sum>i<length ws. ws ! i)"
    by (rule sum.cong) (simp_all add: nth_append)
  with snoc show ?case
    by (simp add: add.assoc)
qed

lemma updateProgress_averaged:
  "wellFormed W st \<Longrightarrow> averaged (updateProgress st) \<and> wellFormed W (updateProgress st)"
  by (simp add: wellFormed_def averaged_def updateProgress_def normalisedSum_def foldl_weighted)

lemma callback_wellFormed:
  "wellFormed W st \<Longrightarrow> wellFormed W (callback idx p st)"
  by (simp add: wellFormed_def callback_def updateProgress_def)

lemma callback_parts:
  "idx < length (progressParts st) \<Longrightarrow>
   progressParts (callback idx p st) = (progressParts st)[idx := p]"
  by (auto simp add: callback_def updateProgress_def list_update_same_conv)

lemma callback_effective:
  assumes "wellFormed W st" and "progressParts st ! idx \<noteq> p"
  shows "averaged (callback idx p st)"
proof -
  have "wellFormed W (st\<lparr>progressParts := (progressParts st)[idx := p]\<rparr>)"
    using assms(1) by (simp add: wellFormed_def)
  then show ?thesis
    using assms(2) by (simp add: callback_def updateProgress_averaged)
qed

lemma callback_averaged:
  assumes "wellFormed W st" and "averaged st"
  shows "averaged (callback idx p st)"
  using assms callback_effective [of W st idx p] by (cases "progressParts st ! idx = p") (simp_all add: callback_def)

lemma createSteps_wellFormed:
  assumes "createSteps steps p0 = Inr st"
  shows "wellFormed (stepWeights st) st \<and> progressParts st = replicate (length (stepWeights st)) 0
     \<and> aggregator.progress st = p0
     \<and> (case steps of Count n \<Rightarrow> stepWeights st = replicate n 1 | Weights ws \<Rightarrow> stepWeights st = ws)"
  using assms
  by (auto simp add: createSteps_def wellFormed_def foldl_total split: steps.splits if_splits)

lemma lastReported_snoc:
  "lastReported (us @ [(idx, p)]) i = (if i = idx then p else lastReported us i)"
  by (simp add: lastReported_def)

lemma runUpdates_snoc: "runUpdates (us @ [(idx, p)]) st = callback idx p (runUpdates us st)"
  by (simp add: runUpdates_def)

lemma runUpdates_invariant:
  fixes st0 :: "'a::field aggregator"
  assumes wf: "wellFormed W st0" and z: "progressParts st0 = replicate (length W) 0"
  shows "\<forall>(idx, p)\<in>set us. idx < length W \<Longrightarrow>
     wellFormed W (runUpdates us st0)
     \<and> (\<forall>i<length W. progressParts (runUpdates us st0) ! i = lastReported us i)
     \<and> ((\<exists>(idx, p)\<in>set us. p \<noteq> 0) \<longrightarrow> averaged (runUpdates us st0))
     \<and> ((\<forall>(idx, p)\<in>set us. p = 0) \<longrightarrow> runUpdates us st0 = st0)"
proof (induction us rule: rev_induct)
  case Nil
  show ?case using wf z by (simp add: runUpdates_def lastReported_def)
next
  case (snoc u us)
  obtain idx p where u: "u = (idx, p)" by (cases u)
  let ?st = "runUpdates us st0"
  from snoc.prems have valid: "\<forall>(idx, p)\<in>set us. idx < length W" and idx: "idx < length W"
    by (auto simp add: u)
  from snoc.IH [OF valid] have
    wf': "wellFormed W ?st" and
    parts: "\<forall>i<length W. progressParts ?st ! i = lastReported us i" and
    avg: "(\<exists>(idx, p)\<in>set us. p \<noteq> 0) \<longrightarrow> averaged ?st" and
    unch: "(\<forall>(idx, p)\<in>set us. p = 0) \<longrightarrow> ?st = st0"
    by blast+
  have len: "length (progressParts ?st) = length W"
    using wf' by (simp add: wellFormed_def)
  have 1: "wellFormed W (callback idx p ?st)"
    using wf' by (rule callback_wellFormed)
  have 2: "\<forall>i<length W. progressParts (callback idx p ?st) ! i = lastReported (us @ [(idx, p)]) i"
    using parts idx len by (simp add: callback_parts lastReported_snoc nth_list_update)
  have 3: "(\<exists>(j, q)\<in>set (us @ [(idx, p)]). q \<noteq> 0) \<longrightarrow> averaged (callback idx p ?st)"
  proof
    assume ex: "\<exists>(j, q)\<in>set (us @ [(idx, p)]). q \<noteq> 0"
    show "averaged (callback idx p ?st)"
    proof (cases "\<exists>(j, q)\<in>set us. q \<noteq> 0")
      case True
      with avg have "averaged ?st" by blast
      with wf' show ?thesis by (rule callback_averaged)
    next
      case False
      then have all0: "\<forall>(j, q)\<in>set us. q = 0" by auto
      with unch have "?st = st0" by blast
      then have "progressParts ?st ! idx = 0" using z idx by simp
      moreover from ex False have "p \<noteq> 0" by auto
      ultimately have "progressParts ?st ! idx \<noteq> p" by simp
      with wf' show ?thesis by (rule callback_effective)
    qed
  qed
  have 4: "(\<forall>(j, q)\<in>set (us @ [(idx, p)]). q = 0) \<longrightarrow> callback idx p ?st = st0"
  proof
    assume a: "\<forall>(j, q)\<in>set (us @ [(idx, p)]). q = 0"
    then have "\<forall>(j, q)\<in>set us. q = 0" and p0: "p = 0" by auto
    with unch have e: "?st = st0" by blast
    then have "progressParts ?st ! idx = 0" using z idx by simp
    then show "callback idx p ?st = st0" using e p0 by (simp add: callback_def)
  qed
  show ?case
    unfolding u runUpdates_snoc using 1 2 3 4 by blast
qed

lemma normalisedSum_cong:
  "(\<And>i. i < length W \<Longrightarrow> p i = q i) \<Longrightarrow> normalisedSum p W = normalisedSum q W"
  by (simp add: normalisedSum_def)

lemma normalisedSum_zero: "(\<And>i. i < length W \<Longrightarrow> p i = 0) \<Longrightarrow> normalisedSum p W = 0"
  by (simp add: normalisedSum_def)

lemma lastReported_all_zero: "\<forall>(idx, p)\<in>set us. p = 0 \<Longrightarrow> lastReported us i = 0"
proof (induction us rule: rev_induct)
  case Nil
  show ?case by (simp add: lastReported_def)
next
  case (snoc u us)
  then show ?case by (cases u) (simp add: lastReported_snoc)
qed

text \<open>
  Claim C3, for exact arithmetic (the numbers of a field, no rounding). Let
  \<^verbatim>\<open>createSteps\<close> be called with a weight sequence (for a count \<open>n\<close>: \<open>n\<close> weights 1) and an
  initial output \<open>p0\<close>, and let any sequence \<open>us\<close> of callback invocations follow. Then
  \<^verbatim>\<open>totalSize\<close> is the sum of the weights and every task's recorded value is the value
  last reported for it (0 when none was). When the total weight is not zero, the output
  is the weight-normalised sum of the last reported values as soon as one update has
  reported a value other than 0, and also from the start when the output was created
  as 0. While every update so far reported 0, each was an update to the recorded value
  and the output still is \<open>p0\<close>. Nothing is stated about the output when the total weight
  is zero and an update reported a value other than 0: there the source divides by
  zero.
\<close>

theorem createSteps_progress_weighted_average:
  fixes steps :: "'a::field steps"
  assumes "createSteps steps p0 = Inr st0"
    and "\<forall>(idx, p)\<in>set us. idx < length (stepWeights st0)"
  shows "stepWeights st0 = (case steps of Count n \<Rightarrow> replicate n 1 | Weights ws \<Rightarrow> ws)
    \<and> totalSize st0 = (\<Sum>i<length (stepWeights st0). stepWeights st0 ! i)
    \<and> (\<forall>i<length (stepWeights st0). progressParts (runUpdates us st0) ! i = lastReported us i)
    \<and> (totalSize st0 \<noteq> 0 \<and> ((\<exists>(idx, p)\<in>set us. p \<noteq> 0) \<or> p0 = 0) \<longrightarrow>
          aggregator.progress (runUpdates us st0)
            = normalisedSum (lastReported us) (stepWeights st0))
    \<and> ((\<forall>(idx, p)\<in>set us. p = 0) \<longrightarrow> aggregator.progress (runUpdates us st0) = p0)"
proof -
  let ?W = "stepWeights st0" and ?st = "runUpdates us st0"
  from createSteps_wellFormed [OF assms(1)] have
    wf: "wellFormed ?W st0" and z: "progressParts st0 = replicate (length ?W) 0" and
    p0: "aggregator.progress st0 = p0" and
    W: "case steps of Count n \<Rightarrow> ?W = replicate n 1 | Weights ws \<Rightarrow> ?W = ws"
    by blast+
  from runUpdates_invariant [OF wf z assms(2)] have
    wf': "wellFormed ?W ?st" and
    parts: "\<forall>i<length ?W. progressParts ?st ! i = lastReported us i" and
    avg: "(\<exists>(idx, p)\<in>set us. p \<noteq> 0) \<longrightarrow> averaged ?st" and
    unch: "(\<forall>(idx, p)\<in>set us. p = 0) \<longrightarrow> ?st = st0"
    by blast+
  have eq: "normalisedSum (\<lambda>i. progressParts ?st ! i) ?W = normalisedSum (lastReported us) ?W"
    using parts by (intro normalisedSum_cong) simp
  have sw: "stepWeights ?st = ?W" using wf' by (simp add: wellFormed_def)
  have 1: "?W = (case steps of Count n \<Rightarrow> replicate n 1 | Weights ws \<Rightarrow> ws)"
    using W by (cases steps) simp_all
  have 3: "(\<exists>(idx, p)\<in>set us. p \<noteq> 0) \<longrightarrow>
      aggregator.progress ?st = normalisedSum (lastReported us) ?W"
    using avg eq sw by (simp add: averaged_def)
  have 4: "(\<forall>(idx, p)\<in>set us. p = 0) \<longrightarrow> aggregator.progress ?st = p0"
    using unch p0 by auto
  have 5: "p0 = 0 \<longrightarrow> aggregator.progress ?st = normalisedSum (lastReported us) ?W"
  proof
    assume p00: "p0 = 0"
    show "aggregator.progress ?st = normalisedSum (lastReported us) ?W"
    proof (cases "\<exists>(idx, p)\<in>set us. p \<noteq> 0")
      case True
      with 3 show ?thesis by blast
    next
      case False
      then have all0: "\<forall>(idx, p)\<in>set us. p = 0" by auto
      then have "normalisedSum (lastReported us) ?W = 0"
        by (intro normalisedSum_zero) (rule lastReported_all_zero)
      with 4 all0 p00 show ?thesis by simp
    qed
  qed
  from 3 5 have 6: "totalSize st0 \<noteq> 0 \<and> ((\<exists>(idx, p)\<in>set us. p \<noteq> 0) \<or> p0 = 0) \<longrightarrow>
      aggregator.progress ?st = normalisedSum (lastReported us) ?W"
    by blast
  have 7: "totalSize st0 = (\<Sum>i<length ?W. ?W ! i)"
    using wf by (simp add: wellFormed_def)
  from 1 7 parts 6 4 show ?thesis by blast
qed

text \<open>Weights 100 and 300, updates 1/2, 1/4 and 1/2 again: the output is 5/16.\<close>

theorem createSteps_progress_weighted_average_witness:
  "createSteps (Weights [100, 300 :: rat]) 0
     = Inr \<lparr>stepWeights = [100, 300], progressParts = [0, 0], totalSize = 400,
            aggregator.progress = 0\<rparr>
   \<and> aggregator.progress
       (runUpdates [(0, 1 / 2), (1, 1 / 4), (0, 1 / 2)]
          \<lparr>stepWeights = [100, 300 :: rat], progressParts = [0, 0], totalSize = 400,
           aggregator.progress = 0\<rparr>)
     = normalisedSum (lastReported [(0, 1 / 2), (1, 1 / 4), (0, 1 / 2)]) [100, 300]
   \<and> normalisedSum (lastReported [(0, 1 / 2), (1, 1 / 4), (0, 1 / 2 :: rat)]) [100, 300]
     = 5 / 16
   \<and> aggregator.progress
       (runUpdates [(1, 0)]
          \<lparr>stepWeights = [100, 300 :: rat], progressParts = [0, 0], totalSize = 400,
           aggregator.progress = 0\<rparr>) = 0"
proof -
  let ?initial = "\<lparr>stepWeights = [100, 300 :: rat], progressParts = [0, 0], totalSize = 400,
                aggregator.progress = 0\<rparr>"
  let ?us = "[(0, 1 / 2), (1, 1 / 4), (0, 1 / 2 :: rat)]"
  have c: "createSteps (Weights [100, 300 :: rat]) 0 = Inr ?initial"
    by (simp add: createSteps_def)
  have v: "\<forall>(idx, p)\<in>set ?us. idx < length (stepWeights ?initial)"
    by simp
  have n: "normalisedSum (lastReported ?us) [100, 300] = 5 / 16"
    by (simp add: normalisedSum_def lastReported_def lessThan_Suc numeral_2_eq_2)
  have t: "totalSize ?initial \<noteq> 0" by simp
  have z: "\<forall>(idx, p)\<in>set [(1, 0 :: rat)]. idx < length (stepWeights ?initial)"
    "\<forall>(idx, p)\<in>set [(1 :: nat, 0 :: rat)]. p = 0"
    by simp_all
  from createSteps_progress_weighted_average [OF c z(1)] z(2)
  have "aggregator.progress (runUpdates [(1, 0)] ?initial) = 0" by blast
  with createSteps_progress_weighted_average [OF c v] c n t show ?thesis
    by simp
qed

text \<open>
  Claim C3 as stated fails when the first update reports the recorded value: with one
  weight 1 and an output created as -1, reporting 0 for task 0 changes nothing, so the
  output is -1 and not \<open>0 * 1 / 1 = 0\<close>.
\<close>

theorem createSteps_unchanged_value_counterexample:
  "createSteps (Weights [1 :: rat]) (- 1)
     = Inr \<lparr>stepWeights = [1], progressParts = [0], totalSize = 1, aggregator.progress = - 1\<rparr>
   \<and> aggregator.progress
       (runUpdates [(0, 0)]
          \<lparr>stepWeights = [1 :: rat], progressParts = [0], totalSize = 1,
           aggregator.progress = - 1\<rparr>) = - 1
   \<and> normalisedSum (lastReported [(0, 0 :: rat)]) [1] = 0
   \<and> aggregator.progress
       (runUpdates [(0, 0)]
          \<lparr>stepWeights = [1 :: rat], progressParts = [0], totalSize = 1,
           aggregator.progress = - 1\<rparr>)
     \<noteq> normalisedSum (lastReported [(0, 0 :: rat)]) [1]"
  by (simp add: createSteps_def runUpdates_def callback_def normalisedSum_def lastReported_def)

text \<open>
  Claim C9. A callback invoked with the value recorded for its task returns the state
  as it is: nothing is recomputed and the output is unchanged. An update repeated at
  once is such an invocation, and so is, after any sequence of updates of an aggregator
  made by \<^verbatim>\<open>createSteps\<close>, an update of a task to the value last reported for it.
\<close>

theorem callback_unchanged_value_noop:
  fixes st :: "'a::field aggregator"
  shows "(progressParts st ! idx = p \<longrightarrow> callback idx p st = st)
    \<and> (idx < length (progressParts st) \<longrightarrow>
         callback idx p (callback idx p st) = callback idx p st)
    \<and> (createSteps steps p0 = Inr (st0 :: 'a aggregator)
         \<and> (\<forall>(j, q)\<in>set us. j < length (stepWeights st0))
         \<and> idx < length (stepWeights st0) \<longrightarrow>
         runUpdates (us @ [(idx, lastReported us idx)]) st0 = runUpdates us st0)"
proof -
  have 1: "progressParts st ! idx = p \<longrightarrow> callback idx p st = st"
    by (simp add: callback_def)
  have 2: "idx < length (progressParts st) \<longrightarrow>
      callback idx p (callback idx p st) = callback idx p st"
  proof
    assume "idx < length (progressParts st)"
    then have "progressParts (callback idx p st) ! idx = p"
      by (simp add: callback_parts)
    then show "callback idx p (callback idx p st) = callback idx p st"
      by (simp add: callback_def [of idx p "callback idx p st"])
  qed
  have 3: "createSteps steps p0 = Inr st0 \<and> (\<forall>(j, q)\<in>set us. j < length (stepWeights st0))
         \<and> idx < length (stepWeights st0) \<longrightarrow>
         runUpdates (us @ [(idx, lastReported us idx)]) st0 = runUpdates us st0"
  proof
    assume a: "createSteps steps p0 = Inr st0 \<and> (\<forall>(j, q)\<in>set us. j < length (stepWeights st0))
         \<and> idx < length (stepWeights st0)"
    from createSteps_wellFormed [of steps p0 st0] a have
      wf: "wellFormed (stepWeights st0) st0" and
      z: "progressParts st0 = replicate (length (stepWeights st0)) 0"
      by blast+
    from runUpdates_invariant [OF wf z, of us] a
    have "progressParts (runUpdates us st0) ! idx = lastReported us idx"
      by blast
    then show "runUpdates (us @ [(idx, lastReported us idx)]) st0 = runUpdates us st0"
      by (simp add: runUpdates_snoc callback_def)
  qed
  from 1 2 3 show ?thesis by blast
qed

text \<open>Task 0 holds 1/2 and is updated to 1/2.\<close>

theorem callback_unchanged_value_noop_witness:
  "callback 0 (1 / 2)
     \<lparr>stepWeights = [100, 300 :: rat], progressParts = [1 / 2, 0], totalSize = 400,
      aggregator.progress = 1 / 8\<rparr>
   = \<lparr>stepWeights = [100, 300], progressParts = [1 / 2, 0], totalSize = 400,
      aggregator.progress = 1 / 8\<rparr>
   \<and> runUpdates ([(0, 1 / 2), (1, 1 / 4)] @ [(0, lastReported [(0, 1 / 2), (1, 1 / 4)] 0)])
       \<lparr>stepWeights = [100, 300 :: rat], progressParts = [0, 0], totalSize = 400,
        aggregator.progress = 0\<rparr>
     = runUpdates [(0, 1 / 2), (1, 1 / 4)]
         \<lparr>stepWeights = [100, 300], progressParts = [0, 0], totalSize = 400,
          aggregator.progress = 0\<rparr>
   \<and> callback 1 (1 / 4)
       (callback 1 (1 / 4)
          \<lparr>stepWeights = [100, 300 :: rat], progressParts = [0, 0], totalSize = 400,
           aggregator.progress = 0\<rparr>)
     = callback 1 (1 / 4)
         \<lparr>stepWeights = [100, 300], progressParts = [0, 0], totalSize = 400,
          aggregator.progress = 0\<rparr>"
proof -
  let ?st = "\<lparr>stepWeights = [100, 300 :: rat], progressParts = [1 / 2, 0], totalSize = 400,
               aggregator.progress = 1 / 8\<rparr>"
  let ?initial = "\<lparr>stepWeights = [100, 300 :: rat], progressParts = [0, 0], totalSize = 400,
                aggregator.progress = 0\<rparr>"
  have c: "createSteps (Weights [100, 300 :: rat]) 0 = Inr ?initial"
    by (simp add: createSteps_def)
  from callback_unchanged_value_noop [where st = ?st and idx = 0 and p = "1 / 2"]
  have a: "callback 0 (1 / 2) ?st = ?st" by simp
  from callback_unchanged_value_noop
         [where idx = 0 and steps = "Weights [100, 300]" and ?p0.0 = 0 and ?st0.0 = ?initial
            and us = "[(0, 1 / 2), (1, 1 / 4)]"] c
  have b: "runUpdates ([(0, 1 / 2), (1, 1 / 4)] @ [(0, lastReported [(0, 1 / 2), (1, 1 / 4)] 0)]) ?initial
      = runUpdates [(0, 1 / 2), (1, 1 / 4)] ?initial"
    by simp
  from callback_unchanged_value_noop [where st = ?initial and idx = 1 and p = "1 / 4"]
  have c2: "callback 1 (1 / 4) (callback 1 (1 / 4) ?initial) = callback 1 (1 / 4) ?initial"
    by simp
  from a b c2 show ?thesis by blast
qed

text \<open>
  Claim C10. The weight of a step is the step when it is a number; otherwise its
  \<^verbatim>\<open>size\<close>, or its \<^verbatim>\<open>length\<close> when the size is undefined or zero, or 1 when both are. An
  image of size 0, or without a size, weighs 1. \<^verbatim>\<open>withProgress\<close> makes the aggregator
  with exactly these weights, in the order of the steps.
\<close>

theorem withProgress_step_weights:
  fixes view :: "'s \<Rightarrow> 'a::field jsstep"
  shows "stepWeight (Number x :: 'a jsstep) = x
    \<and> stepWeight (Object sz len :: 'a jsstep)
        = (case sz of
             Some n \<Rightarrow> if n \<noteq> 0 then n
                       else (case len of Some l \<Rightarrow> if l \<noteq> 0 then l else 1 | None \<Rightarrow> 1)
           | None \<Rightarrow> (case len of Some l \<Rightarrow> if l \<noteq> 0 then l else 1 | None \<Rightarrow> 1))
    \<and> stepWeight (imageStep (img\<lparr>size_bytes := Some 0\<rparr>)) = 1
    \<and> stepWeight (imageStep (img\<lparr>size_bytes := None\<rparr>)) = 1
    \<and> (\<exists>st. withProgress view steps p0 = Inr (zip steps [0..<length steps], st)
            \<and> stepWeights st = map (\<lambda>step. stepWeight (view step)) steps)"
  by (auto simp add: withProgress_def createSteps_def imageStep_def js_or_def truthy_def
        split: option.splits)

text \<open>A manifest of three images, of sizes 100, 0 and undefined.\<close>

theorem withProgress_step_weights_witness:
  "withProgress imageStep
     [\<lparr>name = ''boot'', size_bytes = Some 100, sparse = False, checksum = ''c1''\<rparr>,
      \<lparr>name = ''misc'', size_bytes = Some 0, sparse = False, checksum = ''c2''\<rparr>,
      \<lparr>name = ''system'', size_bytes = None, sparse = True, checksum = ''c3''\<rparr>] 0
   = Inr (zip [\<lparr>name = ''boot'', size_bytes = Some 100, sparse = False, checksum = ''c1''\<rparr>,
               \<lparr>name = ''misc'', size_bytes = Some 0, sparse = False, checksum = ''c2''\<rparr>,
               \<lparr>name = ''system'', size_bytes = None, sparse = True, checksum = ''c3''\<rparr>]
              [0, 1, 2],
          \<lparr>stepWeights = [100, 1, 1], progressParts = [0, 0, 0], totalSize = 102,
           aggregator.progress = 0\<rparr>)"
  using withProgress_step_weights
          [where view = imageStep and ?p0.0 = "0 :: rat"
             and steps = "[\<lparr>name = ''boot'', size_bytes = Some 100, sparse = False, checksum = ''c1''\<rparr>,
      \<lparr>name = ''misc'', size_bytes = Some 0, sparse = False, checksum = ''c2''\<rparr>,
      \<lparr>name = ''system'', size_bytes = None, sparse = True, checksum = ''c3''\<rparr>]"]
  by (simp add: withProgress_def createSteps_def imageStep_def js_or_def truthy_def
        upt_rec [of 0] upt_rec [of 1] upt_rec [of 2])

subsection \<open>The device recognizer\<close>

lemma collectPartitions_set:
  "set (collectPartitions keys acc)
     = set acc \<union> {stripSlot n | n. ''partition-type:'' @ n \<in> set keys}"
proof (induction keys arbitrary: acc)
  case Nil
  show ?case by simp
next
  case (Cons key keys)
  show ?case
  proof (cases "prefix ''partition-type:'' key")
    case False
    then have "\<And>n. key \<noteq> ''partition-type:'' @ n" by (metis prefixI)
    then have "{stripSlot n | n. ''partition-type:'' @ n \<in> set (key # keys)}
        = {stripSlot n | n. ''partition-type:'' @ n \<in> set keys}" by auto
    with False Cons.IH show ?thesis by (simp add: startsWith_def)
  next
    case True
    then obtain m where key: "key = ''partition-type:'' @ m" by (auto elim: prefixE)
    have "{stripSlot n | n. ''partition-type:'' @ n \<in> set (key # keys)}
        = insert (stripSlot m) {stripSlot n | n. ''partition-type:'' @ n \<in> set keys}"
      unfolding key by auto
    moreover have "drop (length ''partition-type:'') key = m" unfolding key by simp
    ultimately show ?thesis
      using True Cons.IH
      by (auto simp add: startsWith_def endsWith_def stripSlot_def Let_def
              simp del: length_Cons list.size)
  qed
qed

lemma collectPartitions_distinct:
  "distinct acc \<Longrightarrow> distinct (collectPartitions keys acc)"
  by (induction keys arbitrary: acc) (simp_all add: Let_def)

lemma partitionsOf_names: "set (partitionsOf deviceInfo) = partitionNames deviceInfo"
  by (simp add: partitionsOf_def partitionNames_def collectPartitions_set)

lemma partitionsOf_distinct: "distinct (partitionsOf deviceInfo)"
  by (simp add: partitionsOf_def collectPartitions_distinct)

text \<open>
  Claim C2, with the other checks of the recognizer made explicit. The array the loop
  fills holds the partition names of the device, each once. A device whose \<^verbatim>\<open>kernel\<close>,
  \<^verbatim>\<open>max-download-size\<close> and \<^verbatim>\<open>slot-count\<close> have the expected values, whose \<^verbatim>\<open>serialno\<close> is
  not empty and whose partition names all are in the expected list (a strict subset of
  it or the whole list) is accepted; a device with a partition name outside the list
  is rejected.
\<close>

theorem isRecognizedDevice_partition_subset:
  "set (partitionsOf deviceInfo) = partitionNames deviceInfo
   \<and> distinct (partitionsOf deviceInfo)
   \<and> (map_of deviceInfo ''kernel'' = Some ''uefi''
        \<and> map_of deviceInfo ''max-download-size'' = Some ''104857600''
        \<and> map_of deviceInfo ''slot-count'' = Some ''2''
        \<and> (\<exists>v. map_of deviceInfo ''serialno'' = Some v \<and> v \<noteq> [])
        \<and> partitionNames deviceInfo \<subseteq> set expectedPartitions
      \<longrightarrow> isRecognizedDevice deviceInfo)
   \<and> (\<not> partitionNames deviceInfo \<subseteq> set expectedPartitions
      \<longrightarrow> \<not> isRecognizedDevice deviceInfo)"
proof -
  have sub: "list_all (\<lambda>partition. partition \<in> set expectedPartitions) (partitionsOf deviceInfo)
      \<longleftrightarrow> partitionNames deviceInfo \<subseteq> set expectedPartitions"
    unfolding partitionsOf_names [symmetric] by (auto simp add: list_all_iff)
  have accept: "map_of deviceInfo ''kernel'' = Some ''uefi''
        \<and> map_of deviceInfo ''max-download-size'' = Some ''104857600''
        \<and> map_of deviceInfo ''slot-count'' = Some ''2''
        \<and> (\<exists>v. map_of deviceInfo ''serialno'' = Some v \<and> v \<noteq> [])
        \<and> partitionNames deviceInfo \<subseteq> set expectedPartitions
      \<longrightarrow> isRecognizedDevice deviceInfo"
    unfolding isRecognizedDevice_def sub by auto
  have reject: "\<not> partitionNames deviceInfo \<subseteq> set expectedPartitions
      \<longrightarrow> \<not> isRecognizedDevice deviceInfo"
    unfolding isRecognizedDevice_def sub by simp
  from partitionsOf_names partitionsOf_distinct accept reject show ?thesis
    by blast
qed

text \<open>A device with partitions boot and userdata, and one with a partition vendor.\<close>

theorem isRecognizedDevice_partition_subset_witness:
  "isRecognizedDevice
     [(''kernel'', ''uefi''), (''max-download-size'', ''104857600''), (''slot-count'', ''2''),
      (''partition-type:boot_a'', ''raw''), (''partition-type:boot_b'', ''raw''),
      (''partition-type:userdata'', ''ext4''), (''serialno'', ''1a2b3c4d'')]
   \<and> \<not> isRecognizedDevice
     [(''kernel'', ''uefi''), (''max-download-size'', ''104857600''), (''slot-count'', ''2''),
      (''partition-type:boot_a'', ''raw''), (''partition-type:vendor_a'', ''raw''),
      (''serialno'', ''1a2b3c4d'')]"
proof -
  let ?good =
    "[(''kernel'', ''uefi''), (''max-download-size'', ''104857600''), (''slot-count'', ''2''),
      (''partition-type:boot_a'', ''raw''), (''partition-type:boot_b'', ''raw''),
      (''partition-type:userdata'', ''ext4''), (''serialno'', ''1a2b3c4d'')]"
  let ?bad =
    "[(''kernel'', ''uefi''), (''max-download-size'', ''104857600''), (''slot-count'', ''2''),
      (''partition-type:boot_a'', ''raw''), (''partition-type:vendor_a'', ''raw''),
      (''serialno'', ''1a2b3c4d'')]"
  have g: "partitionsOf ?good = [''boot'', ''userdata'']"
    by (simp add: partitionsOf_def startsWith_def endsWith_def suffix_to_prefix)
  have b: "partitionsOf ?bad = [''boot'', ''vendor'']"
    by (simp add: partitionsOf_def startsWith_def endsWith_def suffix_to_prefix)
  have gs: "partitionNames ?good \<subseteq> set expectedPartitions"
    unfolding partitionsOf_names [symmetric] g by (simp add: expectedPartitions_def)
  have bs: "\<not> partitionNames ?bad \<subseteq> set expectedPartitions"
    unfolding partitionsOf_names [symmetric] b by (simp add: expectedPartitions_def)
  from isRecognizedDevice_partition_subset [of ?good] gs
  have 1: "isRecognizedDevice ?good" by simp
  from isRecognizedDevice_partition_subset [of ?bad] bs
  have 2: "\<not> isRecognizedDevice ?bad" by blast
  from 1 2 show ?thesis by blast
qed

text \<open>
  Claim C2 as stated fails for a device that reports three slots: its partition names
  are a strict subset of the expected list, and it is rejected.
\<close>

theorem isRecognizedDevice_strict_subset_counterexample:
  "partitionNames
     [(''kernel'', ''uefi''), (''max-download-size'', ''104857600''), (''slot-count'', ''3''),
      (''partition-type:boot_a'', ''raw''), (''partition-type:boot_b'', ''raw''),
      (''serialno'', ''1a2b3c4d'')] \<subset> set expectedPartitions
   \<and> \<not> isRecognizedDevice
     [(''kernel'', ''uefi''), (''max-download-size'', ''104857600''), (''slot-count'', ''3''),
      (''partition-type:boot_a'', ''raw''), (''partition-type:boot_b'', ''raw''),
      (''serialno'', ''1a2b3c4d'')]"
proof -
  let ?info =
    "[(''kernel'', ''uefi''), (''max-download-size'', ''104857600''), (''slot-count'', ''3''),
      (''partition-type:boot_a'', ''raw''), (''partition-type:boot_b'', ''raw''),
      (''serialno'', ''1a2b3c4d'')]"
  have p: "partitionsOf ?info = [''boot'']"
    by (simp add: partitionsOf_def startsWith_def endsWith_def suffix_to_prefix)
  have 1: "partitionNames ?info \<subset> set expectedPartitions"
    unfolding partitionsOf_names [symmetric] p by (auto simp add: expectedPartitions_def)
  have 2: "\<not> isRecognizedDevice ?info"
    by (simp add: isRecognizedDevice_def)
  from 1 2 show ?thesis by blast
qed

subsection \<open>initialize and handleContinue\<close>

lemma initialize_unchanged:
  "step (snd (initialize env s)) = step s"
  "session.progress (snd (initialize env s)) = session.progress s"
  "onRetry (snd (initialize env s)) = onRetry s"
  "issued (snd (initialize env s)) = issued s"
  by (simp_all add: initialize_def Let_def split: option.splits)

lemma initialize_error_kept:
  "error s \<noteq> NONE \<Longrightarrow> error (snd (initialize env s)) \<noteq> NONE"
  by (simp add: initialize_def Let_def split: option.splits)

lemma initialize_success:
  "fst (initialize env s) \<Longrightarrow> error (snd (initialize env s)) = error s"
  by (simp add: initialize_def Let_def split: option.splits if_splits)

lemma initialize_manifest:
  "isInitialized (snd (initialize env s)) \<Longrightarrow>
   isInitialized s \<and> manifest (snd (initialize env s)) = manifest s
   \<or> (\<exists>m. manifest (snd (initialize env s)) = Some m \<and> m \<noteq> [])"
  by (auto simp add: initialize_def Let_def split: option.splits if_splits)

lemma handleContinue_unchanged:
  "session.progress (handleContinue env s) = session.progress s"
  "onRetry (handleContinue env s) = onRetry s"
  "issued (handleContinue env s) = issued s"
  by (simp_all add: handleContinue_def Let_def initialize_unchanged)

lemma handleContinue_error_kept:
  "error s \<noteq> NONE \<Longrightarrow>
   error (handleContinue env s) \<noteq> NONE \<and> step (handleContinue env s) = step s"
  using initialize_error_kept [of s env]
  by (simp add: handleContinue_def Let_def initialize_unchanged)

subsection \<open>stage effect\<close>

lemma eraseDevice_unfold:
  "eraseDevice oc s =
     (case await_request oc (RunCommand ''erase:userdata'') (s\<lparr>message := ''Erasing userdata''\<rparr>) of
        (Some err, s1) \<Rightarrow> (Some err, s1)
      | (None, s1) \<Rightarrow>
          (case await_request oc (RunCommand ''continue'')
                  (s1\<lparr>session.progress := 9 / 10, message := ''Rebooting''\<rparr>) of
             (Some err, s2) \<Rightarrow> (Some err, s2)
           | (None, s2) \<Rightarrow> (None, s2\<lparr>session.progress := 1, connected := False\<rparr>)))"
  by (simp add: eraseDevice_def)

text \<open>
  \<^verbatim>\<open>eraseDevice\<close> is its three segments, as far as its commands resolve.
\<close>

lemma eraseDevice_segments:
  "eraseDevice oc s =
     (case rejects oc (length (issued s)) of
        Some err \<Rightarrow> (Some err, eraseStart s)
      | None \<Rightarrow>
          (case rejects oc (Suc (length (issued s))) of
             Some err \<Rightarrow> (Some err, eraseResolved (eraseStart s))
           | None \<Rightarrow> (None, rebootResolved (eraseResolved (eraseStart s)))))"
  by (simp add: eraseDevice_def await_request_def eraseStart_def eraseResolved_def
        rebootResolved_def split: option.splits)

lemma stage_effect_unfold:
  "stage_effect oc s0 =
     (let s = s0\<lparr>session.progress := - 1, message := []\<rparr>
      in if error s \<noteq> NONE then s
         else case step s of
           CONNECTING \<Rightarrow> connecting oc s
         | DOWNLOADING \<Rightarrow>
             (case downloadImages oc (s\<lparr>session.progress := 0\<rparr>) of
                (None, s1) \<Rightarrow> s1\<lparr>step := UNPACKING\<rparr>
              | (Some err, s1) \<Rightarrow> s1\<lparr>error := DOWNLOAD_FAILED\<rparr>)
         | UNPACKING \<Rightarrow>
             (case unpackImages oc (s\<lparr>session.progress := 0\<rparr>) of
                (None, s1) \<Rightarrow> s1\<lparr>step := FLASHING\<rparr>
              | (Some (Str err), s1) \<Rightarrow>
                  if startsWith err ''Checksum mismatch''
                  then s1\<lparr>error := CHECKSUM_MISMATCH\<rparr>
                  else s1\<lparr>error := UNPACK_FAILED\<rparr>
              | (Some (Exception e), s1) \<Rightarrow> s1)
         | FLASHING \<Rightarrow>
             (case flashDevice oc (s\<lparr>session.progress := 0\<rparr>) of
                (None, s1) \<Rightarrow> s1\<lparr>step := ERASING\<rparr>
              | (Some err, s1) \<Rightarrow> s1\<lparr>error := FLASH_FAILED\<rparr>)
         | ERASING \<Rightarrow>
             (case eraseDevice oc (s\<lparr>session.progress := 0\<rparr>) of
                (None, s1) \<Rightarrow> s1\<lparr>step := DONE\<rparr>
              | (Some err, s1) \<Rightarrow> s1\<lparr>error := ERASE_FAILED\<rparr>)
         | _ \<Rightarrow> s)"
  by (cases "step s0") (simp_all add: stage_effect_def stage_start_def stage_work_def Let_def)

lemma stage_effect_error:
  "error s \<noteq> NONE \<Longrightarrow> stage_effect oc s = s\<lparr>session.progress := - 1, message := []\<rparr>"
  by (simp add: stage_effect_unfold Let_def)

lemma error_effect_fields:
  "error (error_effect s) = error s" "step (error_effect s) = step s"
  "issued (error_effect s) = issued s" "isInitialized (error_effect s) = isInitialized s"
  "manifest (error_effect s) = manifest s"
  by (simp_all add: error_effect_def)

lemma dispatch_fields:
  "error (dispatch ev s) = error (case ev of
                  Initialize env \<Rightarrow> snd (initialize env s)
                | Continue env \<Rightarrow> handleContinue env s
                | StageRun oc \<Rightarrow> stage_effect oc s)"
  "step (dispatch ev s) = step (case ev of
                  Initialize env \<Rightarrow> snd (initialize env s)
                | Continue env \<Rightarrow> handleContinue env s
                | StageRun oc \<Rightarrow> stage_effect oc s)"
  "issued (dispatch ev s) = issued (case ev of
                  Initialize env \<Rightarrow> snd (initialize env s)
                | Continue env \<Rightarrow> handleContinue env s
                | StageRun oc \<Rightarrow> stage_effect oc s)"
  by (simp_all add: dispatch_def Let_def error_effect_fields)

lemma dispatch_error_kept:
  assumes "error s \<noteq> NONE"
  shows "error (dispatch ev s) \<noteq> NONE \<and> step (dispatch ev s) = step s"
proof (cases ev)
  case (Initialize env)
  with assms show ?thesis
    by (simp add: dispatch_fields initialize_error_kept initialize_unchanged)
next
  case (Continue env)
  with assms show ?thesis
    by (simp add: dispatch_fields handleContinue_error_kept)
next
  case (StageRun oc)
  with assms show ?thesis
    by (simp add: dispatch_fields stage_effect_error)
qed

lemma run_error_kept:
  "error s \<noteq> NONE \<Longrightarrow> error (run evs s) \<noteq> NONE \<and> step (run evs s) = step s"
proof (induction evs rule: rev_induct)
  case Nil
  then show ?case by (simp add: run_def)
next
  case (snoc ev evs)
  then have "error (run evs s) \<noteq> NONE" and "step (run evs s) = step s" by simp_all
  with dispatch_error_kept [of "run evs s" ev] show ?case
    by (simp add: run_def)
qed

lemma frame_refl: "frame s s"
  by (simp add: frame_def)

lemma frame_trans: "frame s s1 \<Longrightarrow> frame s1 s2 \<Longrightarrow> frame s s2"
  by (simp add: frame_def)

lemma await_request_frame: "await_request oc r s = (e, s') \<Longrightarrow> frame s s'"
  by (auto simp add: await_request_def frame_def)

lemma await_request_message_frame:
  "await_request oc r (s\<lparr>message := m\<rparr>) = (e, s') \<Longrightarrow> frame s s'"
  by (auto simp add: await_request_def frame_def)

lemma downloadLoop_frame: "downloadLoop oc pairs s = (e, s') \<Longrightarrow> frame s s'"
proof (induction pairs arbitrary: s)
  case Nil
  then show ?case by (simp add: frame_refl)
next
  case (Cons pair pairs)
  obtain img cb where pair: "pair = (img, cb)" by (cases pair)
  obtain e1 s1 where a: "await_request oc (DownloadImage img)
      (s\<lparr>message := ''Downloading '' @ name img\<rparr>) = (e1, s1)" by fastforce
  then have f1: "frame s s1" by (rule await_request_message_frame)
  show ?case
  proof (cases e1)
    case None
    with Cons.prems a pair have "downloadLoop oc pairs s1 = (e, s')" by simp
    then have "frame s1 s'" by (rule Cons.IH)
    with f1 show ?thesis by (rule frame_trans)
  next
    case (Some err)
    with Cons.prems a pair have "s' = s1" by simp
    with f1 show ?thesis by simp
  qed
qed

lemma unpackLoop_frame: "unpackLoop oc pairs s = (e, s') \<Longrightarrow> frame s s'"
proof (induction pairs arbitrary: s)
  case Nil
  then show ?case by (simp add: frame_refl)
next
  case (Cons pair pairs)
  obtain img cb where pair: "pair = (img, cb)" by (cases pair)
  obtain e1 s1 where a: "await_request oc (UnpackImage img)
      (s\<lparr>message := ''Unpacking '' @ name img\<rparr>) = (e1, s1)" by fastforce
  then have f1: "frame s s1" by (rule await_request_message_frame)
  show ?case
  proof (cases e1)
    case None
    with Cons.prems a pair have "unpackLoop oc pairs s1 = (e, s')" by simp
    then have "frame s1 s'" by (rule Cons.IH)
    with f1 show ?thesis by (rule frame_trans)
  next
    case (Some err)
    with Cons.prems a pair have "s' = s1" by simp
    with f1 show ?thesis by simp
  qed
qed

lemma flashLoop_frame: "flashLoop oc pairs s = (e, s') \<Longrightarrow> frame s s'"
proof (induction pairs arbitrary: s)
  case Nil
  then show ?case by (simp add: frame_refl)
next
  case (Cons pair pairs)
  obtain img cb where pair: "pair = (img, cb)" by (cases pair)
  show ?case
    using Cons.prems Cons.IH unfolding pair
    by (auto simp add: await_request_def frame_def
          split: prod.splits option.splits if_splits dest!: meta_spec)
qed

lemma downloadImages_frame: "downloadImages oc s = (e, s') \<Longrightarrow> frame s s'"
  by (auto simp add: downloadImages_def frame_refl split: sum.splits dest: downloadLoop_frame)

lemma unpackImages_frame: "unpackImages oc s = (e, s') \<Longrightarrow> frame s s'"
  by (auto simp add: unpackImages_def frame_refl split: sum.splits dest: unpackLoop_frame)

lemma flashDevice_frame:
  assumes "flashDevice oc s = (e, s')"
  shows "frame s s'"
proof -
  obtain e1 s1 where a: "await_request oc (GetVariable ''current-slot'') s = (e1, s1)"
    by fastforce
  then have f1: "frame s s1" by (rule await_request_frame)
  show ?thesis
  proof (cases "e1 = None \<and> currentSlot oc \<in> set [Some ''a'', Some ''b'']")
    case False
    with assms a have "s' = s1"
      by (auto simp add: flashDevice_def split: option.splits)
    with f1 show ?thesis by simp
  next
    case True
    show ?thesis
    proof (cases "manifestSteps s1")
      case (Inl err)
      with assms a True have "s' = s1" by (auto simp add: flashDevice_def)
      with f1 show ?thesis by simp
    next
      case (Inr pairs)
      obtain e2 s2 where l: "flashLoop oc pairs s1 = (e2, s2)" by fastforce
      then have f2: "frame s1 s2" by (rule flashLoop_frame)
      have "frame s2 s'"
        using assms a True Inr l
        by (cases e2) (auto simp add: flashDevice_def Let_def frame_refl
              dest: await_request_message_frame)
      with f1 f2 show ?thesis by (blast intro: frame_trans)
    qed
  qed
qed

lemma eraseDevice_frame: "eraseDevice oc s = (e, s') \<Longrightarrow> frame s s'"
  by (auto simp add: eraseDevice_unfold await_request_def frame_def
        split: prod.splits option.splits)

lemma stage_effect_advance:
  assumes "stepIndex (step s) < stepIndex (step (stage_effect oc s))"
  shows "error s = NONE \<and> error (stage_effect oc s) = NONE"
proof -
  have e: "error s = NONE"
    using assms by (cases "error s = NONE") (simp_all add: stage_effect_error)
  let ?s = "s\<lparr>session.progress := - 1, message := []\<rparr>"
  have "error (stage_effect oc s) = NONE"
  proof (cases "step s")
    case READY
    with e show ?thesis by (simp add: stage_effect_unfold Let_def)
  next
    case CONNECTING
    with e assms show ?thesis
      by (auto simp add: stage_effect_unfold Let_def connecting_def startConnecting_def onConnect_def
            onWaitForConnect_def split: waitForConnect_outcome.splits if_splits)
  next
    case DOWNLOADING
    obtain r s1 where d: "downloadImages oc (?s\<lparr>session.progress := 0\<rparr>) = (r, s1)"
      by fastforce
    then have "frame s s1" by (auto dest!: downloadImages_frame simp add: frame_def)
    with e assms DOWNLOADING d show ?thesis
      by (cases r) (simp_all add: stage_effect_unfold Let_def frame_def)
  next
    case UNPACKING
    obtain r s1 where d: "unpackImages oc (?s\<lparr>session.progress := 0\<rparr>) = (r, s1)"
      by fastforce
    then have "frame s s1" by (auto dest!: unpackImages_frame simp add: frame_def)
    with e assms UNPACKING d show ?thesis
      by (cases r) (auto simp add: stage_effect_unfold Let_def frame_def split: thrown.splits if_splits)
  next
    case FLASHING
    obtain r s1 where d: "flashDevice oc (?s\<lparr>session.progress := 0\<rparr>) = (r, s1)"
      by fastforce
    then have "frame s s1" by (auto dest!: flashDevice_frame simp add: frame_def)
    with e assms FLASHING d show ?thesis
      by (cases r) (simp_all add: stage_effect_unfold Let_def frame_def)
  next
    case ERASING
    obtain r s1 where d: "eraseDevice oc (?s\<lparr>session.progress := 0\<rparr>) = (r, s1)"
      by fastforce
    then have "frame s s1" by (auto dest!: eraseDevice_frame simp add: frame_def)
    with e assms ERASING d show ?thesis
      by (cases r) (simp_all add: stage_effect_unfold Let_def frame_def)
  next
    case DONE
    with e show ?thesis by (simp add: stage_effect_unfold Let_def)
  qed
  with e show ?thesis by simp
qed

lemma dispatch_advance:
  assumes "stepIndex (step s) < stepIndex (step (dispatch ev s))"
  shows "error s = NONE \<and> error (dispatch ev s) = NONE"
proof (cases ev)
  case (Initialize env)
  with assms show ?thesis by (simp add: dispatch_fields initialize_unchanged)
next
  case (Continue env)
  with assms show ?thesis
    using initialize_error_kept [of s env]
    by (auto simp add: dispatch_fields handleContinue_def Let_def initialize_unchanged
          split: if_splits)
next
  case (StageRun oc)
  with assms stage_effect_advance [of s oc] show ?thesis
    by (simp add: dispatch_fields)
qed

subsection \<open>What a stage keeps\<close>

lemma stage_effect_keeps:
  "manifest (stage_effect oc s) = manifest s \<and> isInitialized (stage_effect oc s) = isInitialized s"
proof (cases "error s = NONE")
  case False
  then show ?thesis by (simp add: stage_effect_error)
next
  case e: True
  let ?s = "s\<lparr>session.progress := - 1, message := []\<rparr>"
  show ?thesis
  proof (cases "step s")
    case READY
    with e show ?thesis by (simp add: stage_effect_unfold Let_def)
  next
    case CONNECTING
    with e show ?thesis
      by (auto simp add: stage_effect_unfold Let_def connecting_def startConnecting_def onConnect_def
            onWaitForConnect_def split: waitForConnect_outcome.splits)
  next
    case DOWNLOADING
    obtain r s1 where d: "downloadImages oc (?s\<lparr>session.progress := 0\<rparr>) = (r, s1)"
      by fastforce
    then have "frame s s1" by (auto dest!: downloadImages_frame simp add: frame_def)
    with e DOWNLOADING d show ?thesis
      by (cases r) (simp_all add: stage_effect_unfold Let_def frame_def)
  next
    case UNPACKING
    obtain r s1 where d: "unpackImages oc (?s\<lparr>session.progress := 0\<rparr>) = (r, s1)"
      by fastforce
    then have "frame s s1" by (auto dest!: unpackImages_frame simp add: frame_def)
    with e UNPACKING d show ?thesis
      by (cases r) (auto simp add: stage_effect_unfold Let_def frame_def split: thrown.splits)
  next
    case FLASHING
    obtain r s1 where d: "flashDevice oc (?s\<lparr>session.progress := 0\<rparr>) = (r, s1)"
      by fastforce
    then have "frame s s1" by (auto dest!: flashDevice_frame simp add: frame_def)
    with e FLASHING d show ?thesis
      by (cases r) (simp_all add: stage_effect_unfold Let_def frame_def)
  next
    case ERASING
    obtain r s1 where d: "eraseDevice oc (?s\<lparr>session.progress := 0\<rparr>) = (r, s1)"
      by fastforce
    then have "frame s s1" by (auto dest!: eraseDevice_frame simp add: frame_def)
    with e ERASING d show ?thesis
      by (cases r) (simp_all add: stage_effect_unfold Let_def frame_def)
  next
    case DONE
    with e show ?thesis by (simp add: stage_effect_unfold Let_def)
  qed
qed

lemma dispatch_initialized_manifest:
  assumes "isInitialized s \<longrightarrow> (\<exists>m. manifest s = Some m \<and> m \<noteq> [])"
  shows "isInitialized (dispatch ev s) \<longrightarrow> (\<exists>m. manifest (dispatch ev s) = Some m \<and> m \<noteq> [])"
proof -
  let ?raw = "case ev of
                  Initialize env \<Rightarrow> snd (initialize env s)
                | Continue env \<Rightarrow> handleContinue env s
                | StageRun oc \<Rightarrow> stage_effect oc s"
  have d: "isInitialized (dispatch ev s) = isInitialized ?raw"
    "manifest (dispatch ev s) = manifest ?raw"
    by (simp_all add: dispatch_def Let_def error_effect_fields)
  have "isInitialized ?raw \<longrightarrow> (\<exists>m. manifest ?raw = Some m \<and> m \<noteq> [])"
  proof (cases ev)
    case (Initialize env)
    with assms initialize_manifest [of env s] show ?thesis by auto
  next
    case (Continue env)
    with assms initialize_manifest [of env s] show ?thesis
      by (auto simp add: handleContinue_def Let_def)
  next
    case (StageRun oc)
    with assms stage_effect_keeps [of oc s] show ?thesis by simp
  qed
  with d show ?thesis by simp
qed

lemma reachable_initialized_manifest:
  "reachable s \<Longrightarrow> isInitialized s \<longrightarrow> (\<exists>m. manifest s = Some m \<and> m \<noteq> [])"
proof (induction rule: reachable.induct)
  case start
  show ?case by (simp add: useFastboot_def)
next
  case (after s ev)
  then show ?case by (intro dispatch_initialized_manifest)
qed

subsection \<open>The error effect\<close>

lemma dispatch_error_progress:
  assumes "error s \<noteq> NONE \<longrightarrow> session.progress s = - 1 \<and> onRetry s"
  shows "error (dispatch ev s) \<noteq> NONE \<longrightarrow>
      session.progress (dispatch ev s) = - 1 \<and> onRetry (dispatch ev s)"
proof -
  let ?raw = "case ev of
                  Initialize env \<Rightarrow> snd (initialize env s)
                | Continue env \<Rightarrow> handleContinue env s
                | StageRun oc \<Rightarrow> stage_effect oc s"
  show ?thesis
  proof (cases "error ?raw \<noteq> error s")
    case True
    then show ?thesis by (simp add: dispatch_def Let_def error_effect_def)
  next
    case False
    then have d: "dispatch ev s = ?raw" by (simp add: dispatch_def Let_def)
    show ?thesis
    proof
      assume "error (dispatch ev s) \<noteq> NONE"
      with False d have e: "error s \<noteq> NONE" by simp
      with assms have p: "session.progress s = - 1" "onRetry s" by simp_all
      show "session.progress (dispatch ev s) = - 1 \<and> onRetry (dispatch ev s)"
        unfolding d using p e
        by (cases ev)
           (simp_all add: initialize_unchanged handleContinue_unchanged stage_effect_error)
    qed
  qed
qed

lemma reachable_error_progress:
  "reachable s \<Longrightarrow> error s \<noteq> NONE \<longrightarrow> session.progress s = - 1 \<and> onRetry s"
proof (induction rule: reachable.induct)
  case start
  show ?case by (simp add: useFastboot_def)
next
  case (after s ev)
  then show ?case by (intro dispatch_error_progress)
qed

subsection \<open>The loops when every request resolves, and when one rejects\<close>

lemma manifestSteps_Some:
  "manifest s = Some m \<Longrightarrow> manifestSteps s = Inr (zip m [0..<length m])"
  by (simp add: manifestSteps_def withProgress_def createSteps_def)

lemma flashLoop_resolves:
  assumes "\<forall>n. rejects oc n = None"
  shows "\<exists>s'. flashLoop oc pairs s = (None, s')
     \<and> issued s' = issued s @ concat (map (\<lambda>(img, cb). imageRequests img) pairs)
     \<and> frame s s'"
proof (induction pairs arbitrary: s)
  case Nil
  show ?case by (simp add: frame_refl)
next
  case (Cons pair pairs)
  obtain img cb where pair: "pair = (img, cb)" by (cases pair)
  let ?s4 = "(if sparse img
              then s\<lparr>message := ''Flashing '' @ name img,
                     issued := issued s @ [GetImage img, GetFile img,
                                            RunCommand (''erase:'' @ name img),
                                            FlashBlob (name img) ''other'']\<rparr>
              else s\<lparr>message := ''Flashing '' @ name img,
                     issued := issued s @ [GetImage img, GetFile img,
                                            FlashBlob (name img) ''other'']\<rparr>)"
  have step1: "flashLoop oc (pair # pairs) s = flashLoop oc pairs ?s4"
    using assms unfolding pair by (simp add: await_request_def)
  from Cons.IH [of ?s4] obtain s' where
    l: "flashLoop oc pairs ?s4 = (None, s')" and
    i: "issued s' = issued ?s4 @ concat (map (\<lambda>(img, cb). imageRequests img) pairs)" and
    f: "frame ?s4 s'"
    by blast
  have "issued s' = issued s @ concat (map (\<lambda>(img, cb). imageRequests img) (pair # pairs))"
    using i unfolding pair by (simp add: imageRequests_def)
  moreover have "frame s s'" using f by (simp add: frame_def split: if_splits)
  ultimately show ?case using step1 l by simp
qed

lemma unpackLoop_rejects:
  assumes "k < length pairs"
    and "rejects oc (length (issued s) + k) = Some v"
    and "\<forall>j<k. rejects oc (length (issued s) + j) = None"
  shows "\<exists>s'. unpackLoop oc pairs s = (Some v, s') \<and> frame s s'"
  using assms
proof (induction pairs arbitrary: s k)
  case Nil
  then show ?case by simp
next
  case (Cons pair pairs)
  obtain img cb where pair: "pair = (img, cb)" by (cases pair)
  let ?s1 = "s\<lparr>message := ''Unpacking '' @ name img, issued := issued s @ [UnpackImage img]\<rparr>"
  show ?case
  proof (cases k)
    case 0
    with Cons.prems have "unpackLoop oc (pair # pairs) s = (Some v, ?s1)"
      unfolding pair by (simp add: await_request_def)
    moreover have "frame s ?s1" by (simp add: frame_def)
    ultimately show ?thesis by blast
  next
    case (Suc k')
    with Cons.prems have r0: "rejects oc (length (issued s)) = None"
      by (metis add.right_neutral zero_less_Suc)
    then have step1: "unpackLoop oc (pair # pairs) s = unpackLoop oc pairs ?s1"
      unfolding pair by (simp add: await_request_def)
    have a: "k' < length pairs" using Cons.prems Suc by simp
    have b: "rejects oc (length (issued ?s1) + k') = Some v"
      using Cons.prems Suc by simp
    have c: "\<forall>j<k'. rejects oc (length (issued ?s1) + j) = None"
    proof (intro allI impI)
      fix j assume "j < k'"
      then have "Suc j < k" using Suc by simp
      with Cons.prems have "rejects oc (length (issued s) + Suc j) = None" by blast
      then show "rejects oc (length (issued ?s1) + j) = None" by simp
    qed
    from Cons.IH [OF a b c] obtain s' where
      l: "unpackLoop oc pairs ?s1 = (Some v, s')" and f: "frame ?s1 s'"
      by blast
    have "frame s s'" using f by (simp add: frame_def)
    with step1 l show ?thesis by simp
  qed
qed

lemma imageRequests_not_setActive: "filter isSetActive (imageRequests img) = []"
  by (simp add: imageRequests_def isSetActive_def)

lemma concat_imageRequests_not_setActive:
  "filter isSetActive (concat (map imageRequests m)) = []"
  by (induction m) (simp_all add: imageRequests_not_setActive)

subsection \<open>Work in flight\<close>

lemma stage_start_fields:
  "error (stage_start s) = error s" "step (stage_start s) = step s"
  "onRetry (stage_start s) = onRetry s"
  by (cases "step s"; simp add: stage_start_def Let_def)+

lemma stage_start_error:
  "error s \<noteq> NONE \<Longrightarrow> stage_start s = s\<lparr>session.progress := - 1, message := []\<rparr>"
  by (simp add: stage_start_def Let_def)

lemma exampleDevice_recognized: "isRecognizedDevice exampleDevice"
  by (simp add: isRecognizedDevice_def exampleDevice_def partitionsOf_def startsWith_def
        endsWith_def suffix_to_prefix expectedPartitions_def)

lemma replay_lostSecondConnect:
  "replay lostSecondConnect useFastboot
     = useFastboot\<lparr>step := CONNECTING, error := LOST_CONNECTION, isInitialized := True,
                   onRetry := True, manifest := Some exampleManifest,
                   issued := [WaitForConnect, Connect, WaitForConnect, Connect]\<rparr>"
  by (simp add: replay_def lostSecondConnect_def
        initialize_def handleContinue_def stage_start_def error_effect_def
        startConnecting_def onConnect_def onWaitForConnect_def
        supportedBrowser_def resolving_def useFastboot_def exampleManifest_def Let_def)

text \<open>
  The guards on \<^verbatim>\<open>error\<close> that the source has. \<^verbatim>\<open>onContinue\<close> with no error set moves the
  step to CONNECTING once initialization has succeeded, whether it had succeeded before
  or succeeds in the call that \<^verbatim>\<open>onContinue\<close> awaits; with an error set it leaves the step
  as it is. A run of the stage effect with an error set resets \<^verbatim>\<open>progress\<close> and \<^verbatim>\<open>message\<close>
  and starts no work. For the events in which the work of a stage is run to completion
  at once: an event, or a sequence of events, that begins with an error set ends with
  the same step and with an error set, and an event that ends at a later step than it
  began begins and ends with no error.
\<close>

lemma continue_guards_error:
  "(error s = NONE \<and> (isInitialized s \<or> fst (initialize env s)) \<longrightarrow>
      step (handleContinue env s) = CONNECTING
      \<and> step (dispatch (Continue env) s) = CONNECTING)
   \<and> (error s \<noteq> NONE \<longrightarrow>
        step (handleContinue env s) = step s \<and> step (dispatch (Continue env) s) = step s)
   \<and> (error s \<noteq> NONE \<longrightarrow> stage_effect oc s = s\<lparr>session.progress := - 1, message := []\<rparr>)
   \<and> (error s \<noteq> NONE \<longrightarrow>
        step (dispatch ev s) = step s \<and> error (dispatch ev s) \<noteq> NONE
        \<and> step (run evs s) = step s \<and> error (run evs s) \<noteq> NONE)
   \<and> (stepIndex (step s) < stepIndex (step (dispatch ev s)) \<longrightarrow>
        error s = NONE \<and> error (dispatch ev s) = NONE)"
proof -
  have 1: "error s = NONE \<and> (isInitialized s \<or> fst (initialize env s)) \<longrightarrow>
      step (handleContinue env s) = CONNECTING
      \<and> step (dispatch (Continue env) s) = CONNECTING"
    using initialize_success [of env s]
    by (auto simp add: dispatch_fields handleContinue_def Let_def)
  have 2: "error s \<noteq> NONE \<longrightarrow>
        step (handleContinue env s) = step s \<and> step (dispatch (Continue env) s) = step s"
    using handleContinue_error_kept [of s env] by (simp add: dispatch_fields)
  have 3: "error s \<noteq> NONE \<longrightarrow> stage_effect oc s = s\<lparr>session.progress := - 1, message := []\<rparr>"
    by (simp add: stage_effect_error)
  have 5: "error s \<noteq> NONE \<longrightarrow>
        step (dispatch ev s) = step s \<and> error (dispatch ev s) \<noteq> NONE
        \<and> step (run evs s) = step s \<and> error (run evs s) \<noteq> NONE"
    using dispatch_error_kept [of s ev] run_error_kept [of s evs] by simp
  have 6: "stepIndex (step s) < stepIndex (step (dispatch ev s)) \<longrightarrow>
        error s = NONE \<and> error (dispatch ev s) = NONE"
    using dispatch_advance [of s ev] by blast
  from 1 2 3 5 6 show ?thesis by blast
qed

text \<open>
  The handlers of the work in flight have no such guard. The handler on
  \<^verbatim>\<open>getVariable('all')\<close> moves the step to DOWNLOADING for a recognized device, and the
  handlers on the promises of the four working stages move it to the next stage,
  whatever \<^verbatim>\<open>error\<close> is, and leave \<^verbatim>\<open>error\<close> as it is.
\<close>

lemma handlers_ignore_error:
  "(waited oc = GetAllResolved deviceInfo \<and> isRecognizedDevice deviceInfo \<longrightarrow>
      step (onWaitForConnect oc s) = DOWNLOADING \<and> error (onWaitForConnect oc s) = error s)
   \<and> (fst (downloadImages oc s) = None \<longrightarrow>
        step (stage_work DOWNLOADING oc s) = UNPACKING
        \<and> error (stage_work DOWNLOADING oc s) = error s)
   \<and> (fst (unpackImages oc s) = None \<longrightarrow>
        step (stage_work UNPACKING oc s) = FLASHING
        \<and> error (stage_work UNPACKING oc s) = error s)
   \<and> (fst (flashDevice oc s) = None \<longrightarrow>
        step (stage_work FLASHING oc s) = ERASING
        \<and> error (stage_work FLASHING oc s) = error s)
   \<and> (fst (eraseDevice oc s) = None \<longrightarrow>
        step (stage_work ERASING oc s) = DONE
        \<and> error (stage_work ERASING oc s) = error s)"
proof -
  have 1: "waited oc = GetAllResolved deviceInfo \<and> isRecognizedDevice deviceInfo \<longrightarrow>
      step (onWaitForConnect oc s) = DOWNLOADING \<and> error (onWaitForConnect oc s) = error s"
    by (simp add: onWaitForConnect_def Let_def)
  have 2: "fst (downloadImages oc s) = None \<longrightarrow>
        step (stage_work DOWNLOADING oc s) = UNPACKING
        \<and> error (stage_work DOWNLOADING oc s) = error s"
  proof
    assume a: "fst (downloadImages oc s) = None"
    obtain s1 where d: "downloadImages oc s = (None, s1)" using a by (cases "downloadImages oc s") simp
    then have "frame s s1" by (rule downloadImages_frame)
    with d show "step (stage_work DOWNLOADING oc s) = UNPACKING
        \<and> error (stage_work DOWNLOADING oc s) = error s"
      by (simp add: stage_work_def frame_def)
  qed
  have 3: "fst (unpackImages oc s) = None \<longrightarrow>
        step (stage_work UNPACKING oc s) = FLASHING
        \<and> error (stage_work UNPACKING oc s) = error s"
  proof
    assume a: "fst (unpackImages oc s) = None"
    obtain s1 where d: "unpackImages oc s = (None, s1)" using a by (cases "unpackImages oc s") simp
    then have "frame s s1" by (rule unpackImages_frame)
    with d show "step (stage_work UNPACKING oc s) = FLASHING
        \<and> error (stage_work UNPACKING oc s) = error s"
      by (simp add: stage_work_def frame_def)
  qed
  have 4: "fst (flashDevice oc s) = None \<longrightarrow>
        step (stage_work FLASHING oc s) = ERASING
        \<and> error (stage_work FLASHING oc s) = error s"
  proof
    assume a: "fst (flashDevice oc s) = None"
    obtain s1 where d: "flashDevice oc s = (None, s1)" using a by (cases "flashDevice oc s") simp
    then have "frame s s1" by (rule flashDevice_frame)
    with d show "step (stage_work FLASHING oc s) = ERASING
        \<and> error (stage_work FLASHING oc s) = error s"
      by (simp add: stage_work_def frame_def)
  qed
  have 5: "fst (eraseDevice oc s) = None \<longrightarrow>
        step (stage_work ERASING oc s) = DONE
        \<and> error (stage_work ERASING oc s) = error s"
  proof
    assume a: "fst (eraseDevice oc s) = None"
    obtain s1 where d: "eraseDevice oc s = (None, s1)" using a by (cases "eraseDevice oc s") simp
    then have "frame s s1" by (rule eraseDevice_frame)
    with d show "step (stage_work ERASING oc s) = DONE
        \<and> error (stage_work ERASING oc s) = error s"
      by (simp add: stage_work_def frame_def)
  qed
  from 1 2 3 4 5 show ?thesis by blast
qed

text \<open>
  Claim C1 fails on the trace \<open>lostSecondConnect\<close>. The first click reaches CONNECTING;
  \<^verbatim>\<open>connect\<close> rejects and the step is READY again, the first \<^verbatim>\<open>waitForConnect\<close> still
  pending; the second click reaches CONNECTING again, and the second \<^verbatim>\<open>waitForConnect\<close>
  rejects: the step is CONNECTING and the error is LOST_CONNECTION. Then the first
  \<^verbatim>\<open>waitForConnect\<close> resolves and \<^verbatim>\<open>getVariable('all')\<close> answers with the variables of a
  recognized device: the handler moves the step from CONNECTING to DOWNLOADING while the
  error is LOST_CONNECTION. A later run of the stage effect returns at its guard and
  leaves both as they are.
\<close>

theorem pending_waitForConnect_advances_with_error:
  "step (replay lostSecondConnect useFastboot) = CONNECTING
   \<and> error (replay lostSecondConnect useFastboot) = LOST_CONNECTION
   \<and> step (onWaitForConnect (resolving\<lparr>waited := GetAllResolved exampleDevice\<rparr>)
             (replay lostSecondConnect useFastboot)) = DOWNLOADING
   \<and> error (onWaitForConnect (resolving\<lparr>waited := GetAllResolved exampleDevice\<rparr>)
              (replay lostSecondConnect useFastboot)) = LOST_CONNECTION
   \<and> step (stage_effect resolving
             (onWaitForConnect (resolving\<lparr>waited := GetAllResolved exampleDevice\<rparr>)
                (replay lostSecondConnect useFastboot))) = DOWNLOADING
   \<and> error (stage_effect resolving
              (onWaitForConnect (resolving\<lparr>waited := GetAllResolved exampleDevice\<rparr>)
                 (replay lostSecondConnect useFastboot))) = LOST_CONNECTION"
  by (simp add: replay_lostSecondConnect onWaitForConnect_def exampleDevice_recognized
        stage_effect_error Let_def)

text \<open>
  Claim C4. In the FLASHING stage, with a manifest loaded, a current slot a or b and
  every request resolving, the requests sent are: the read of \<^verbatim>\<open>current-slot\<close>; then,
  image by image in manifest order, \<^verbatim>\<open>getImage\<close>, \<^verbatim>\<open>getFile\<close>, the command
  \<^verbatim>\<open>erase:<name>\<close> exactly when the image is sparse, and \<^verbatim>\<open>flashBlob\<close> of the image for
  the other slot; then one \<^verbatim>\<open>set_active\<close> command for the other slot (b when the current
  slot is a, otherwise a), which is the only slot activation. The stage ends in ERASING.
\<close>

theorem flashDevice_requests:
  assumes "step s = FLASHING" and "error s = NONE" and "manifest s = Some m"
    and "currentSlot oc \<in> {Some ''a'', Some ''b''}" and "\<forall>n. rejects oc n = None"
  shows "issued (stage_effect oc s)
      = issued s @ [GetVariable ''current-slot''] @ concat (map imageRequests m)
        @ [RunCommand (''set_active:'' @ (if currentSlot oc = Some ''a'' then ''b'' else ''a''))]
    \<and> filter isSetActive
        (concat (map imageRequests m)
         @ [RunCommand (''set_active:'' @ (if currentSlot oc = Some ''a'' then ''b'' else ''a''))])
      = [RunCommand (''set_active:'' @ (if currentSlot oc = Some ''a'' then ''b'' else ''a''))]
    \<and> (\<forall>img\<in>set m.
          imageRequests img
            = (if sparse img
               then [GetImage img, GetFile img, RunCommand (''erase:'' @ name img),
                     FlashBlob (name img) ''other'']
               else [GetImage img, GetFile img, FlashBlob (name img) ''other'']))
    \<and> step (stage_effect oc s) = ERASING \<and> error (stage_effect oc s) = NONE"
proof -
  let ?other = "if currentSlot oc = Some ''a'' then ''b'' else ''a''"
  let ?s0 = "s\<lparr>message := [], session.progress := 0\<rparr>"
  let ?s1 = "?s0\<lparr>issued := issued s @ [GetVariable ''current-slot'']\<rparr>"
  have a1: "await_request oc (GetVariable ''current-slot'') ?s0 = (None, ?s1)"
    using assms(5) by (simp add: await_request_def)
  have ms: "manifestSteps ?s1 = Inr (zip m [0..<length m])"
    using assms(3) by (simp add: manifestSteps_Some)
  from flashLoop_resolves [OF assms(5), of "zip m [0..<length m]" ?s1] obtain s2 where
    l: "flashLoop oc (zip m [0..<length m]) ?s1 = (None, s2)" and
    i: "issued s2 = issued ?s1 @ concat (map (\<lambda>(img, cb). imageRequests img) (zip m [0..<length m]))" and
    f: "frame ?s1 s2"
    by blast
  have pr: "map (\<lambda>(img, cb). imageRequests img) pairs = map imageRequests (map fst pairs)"
    for pairs :: "(image \<times> nat) list"
    by (induction pairs) auto
  have mp: "map (\<lambda>(img, cb). imageRequests img) (zip m [0..<length m]) = map imageRequests m"
    unfolding pr by simp
  let ?s3 = "s2\<lparr>message := ''Changing slot to '' @ ?other,
                 issued := issued s2 @ [RunCommand (''set_active:'' @ ?other)]\<rparr>"
  have fd: "flashDevice oc ?s0 = (None, ?s3)"
    using a1 ms l assms(4,5)
    by (auto simp add: flashDevice_def Let_def await_request_def)
  have se: "stage_effect oc s = ?s3\<lparr>step := ERASING\<rparr>"
    using assms(1,2) fd by (simp add: stage_effect_unfold Let_def)
  have 1: "issued (stage_effect oc s)
      = issued s @ [GetVariable ''current-slot''] @ concat (map imageRequests m)
        @ [RunCommand (''set_active:'' @ ?other)]"
    unfolding se using i mp by simp
  have 2: "filter isSetActive
        (concat (map imageRequests m) @ [RunCommand (''set_active:'' @ ?other)])
      = [RunCommand (''set_active:'' @ ?other)]"
    by (simp add: concat_imageRequests_not_setActive isSetActive_def)
  have 3: "\<forall>img\<in>set m.
          imageRequests img
            = (if sparse img
               then [GetImage img, GetFile img, RunCommand (''erase:'' @ name img),
                     FlashBlob (name img) ''other'']
               else [GetImage img, GetFile img, FlashBlob (name img) ''other''])"
    by (simp add: imageRequests_def)
  have 4: "step (stage_effect oc s) = ERASING \<and> error (stage_effect oc s) = NONE"
    unfolding se using f assms(2) by (simp add: frame_def)
  from 1 2 3 4 show ?thesis by blast
qed

text \<open>The example manifest on slot a: boot is flashed, system is erased and flashed.\<close>

theorem flashDevice_requests_witness:
  "issued (stage_effect resolving
             (useFastboot\<lparr>step := FLASHING, manifest := Some exampleManifest\<rparr>))
     = [GetVariable ''current-slot'',
        GetImage \<lparr>name = ''boot'', size_bytes = Some 100, sparse = False, checksum = ''c1''\<rparr>,
        GetFile \<lparr>name = ''boot'', size_bytes = Some 100, sparse = False, checksum = ''c1''\<rparr>,
        FlashBlob ''boot'' ''other'',
        GetImage \<lparr>name = ''system'', size_bytes = Some 300, sparse = True, checksum = ''c2''\<rparr>,
        GetFile \<lparr>name = ''system'', size_bytes = Some 300, sparse = True, checksum = ''c2''\<rparr>,
        RunCommand ''erase:system'',
        FlashBlob ''system'' ''other'',
        RunCommand ''set_active:b'']
   \<and> step (stage_effect resolving
             (useFastboot\<lparr>step := FLASHING, manifest := Some exampleManifest\<rparr>)) = ERASING"
  using flashDevice_requests
          [of "useFastboot\<lparr>step := FLASHING, manifest := Some exampleManifest\<rparr>"
              exampleManifest resolving]
  by (simp add: useFastboot_def resolving_def exampleManifest_def imageRequests_def)

text \<open>
  Claim C5. In the FLASHING stage, when the value read for \<^verbatim>\<open>current-slot\<close> is neither a
  nor b, the error becomes FLASH_FAILED and the read of the variable is the only
  request sent: no image is fetched, erased or flashed and no slot is activated. The
  step stays FLASHING.
\<close>

theorem flashDevice_unknown_slot:
  assumes "step s = FLASHING" and "error s = NONE"
    and "currentSlot oc \<notin> {Some ''a'', Some ''b''}"
  shows "error (stage_effect oc s) = FLASH_FAILED
    \<and> issued (stage_effect oc s) = issued s @ [GetVariable ''current-slot'']
    \<and> step (stage_effect oc s) = FLASHING
    \<and> error (dispatch (StageRun oc) s) = FLASH_FAILED
    \<and> issued (dispatch (StageRun oc) s) = issued s @ [GetVariable ''current-slot'']
    \<and> step (dispatch (StageRun oc) s) = FLASHING"
proof -
  let ?s0 = "s\<lparr>message := [], session.progress := 0\<rparr>"
  have "\<exists>err. flashDevice oc ?s0
      = (Some err, ?s0\<lparr>issued := issued s @ [GetVariable ''current-slot'']\<rparr>)"
    using assms(3) by (auto simp add: flashDevice_def await_request_def split: option.splits)
  then obtain err where
    "flashDevice oc ?s0 = (Some err, ?s0\<lparr>issued := issued s @ [GetVariable ''current-slot'']\<rparr>)"
    by blast
  then have "stage_effect oc s
      = ?s0\<lparr>issued := issued s @ [GetVariable ''current-slot''], error := FLASH_FAILED\<rparr>"
    using assms(1,2) by (simp add: stage_effect_unfold Let_def)
  then show ?thesis
    using assms(1) by (simp add: dispatch_fields)
qed

text \<open>The device answers c.\<close>

theorem flashDevice_unknown_slot_witness:
  "error (stage_effect (resolving\<lparr>currentSlot := Some ''c''\<rparr>)
            (useFastboot\<lparr>step := FLASHING, manifest := Some exampleManifest\<rparr>)) = FLASH_FAILED
   \<and> issued (stage_effect (resolving\<lparr>currentSlot := Some ''c''\<rparr>)
            (useFastboot\<lparr>step := FLASHING, manifest := Some exampleManifest\<rparr>))
       = [GetVariable ''current-slot'']"
  using flashDevice_unknown_slot
          [of "useFastboot\<lparr>step := FLASHING, manifest := Some exampleManifest\<rparr>"
              "resolving\<lparr>currentSlot := Some ''c''\<rparr>"]
  by (simp add: useFastboot_def resolving_def)

text \<open>
  Claim C6. In the UNPACKING stage, let the unpack of an image reject with the value
  \<open>v\<close>, the unpacks before it having resolved. When \<open>v\<close> is a string, the error becomes
  CHECKSUM_MISMATCH if the string starts with \<^verbatim>\<open>Checksum mismatch\<close> and UNPACK_FAILED
  otherwise; the message \<^verbatim>\<open>Checksum mismatch: expected abc got def\<close> starts with the
  marker. When \<open>v\<close> is an Error object, the handler throws at \<^verbatim>\<open>err.startsWith\<close> and no
  error is set: the claim fails there. In every case the step stays UNPACKING.
\<close>

theorem unpackImages_failure_error:
  assumes "step s = UNPACKING" and "error s = NONE" and "manifest s = Some m"
    and "k < length m"
    and "rejects oc (length (issued s) + k) = Some v"
    and "\<forall>j<k. rejects oc (length (issued s) + j) = None"
  shows "error (stage_effect oc s)
      = (case v of
           Str msg \<Rightarrow>
             if startsWith msg ''Checksum mismatch'' then CHECKSUM_MISMATCH else UNPACK_FAILED
         | Exception e \<Rightarrow> NONE)
    \<and> step (stage_effect oc s) = UNPACKING
    \<and> error (dispatch (StageRun oc) s)
      = (case v of
           Str msg \<Rightarrow>
             if startsWith msg ''Checksum mismatch'' then CHECKSUM_MISMATCH else UNPACK_FAILED
         | Exception e \<Rightarrow> NONE)
    \<and> step (dispatch (StageRun oc) s) = UNPACKING
    \<and> startsWith ''Checksum mismatch: expected abc got def'' ''Checksum mismatch''"
proof -
  let ?s0 = "s\<lparr>message := [], session.progress := 0\<rparr>"
  let ?e = "case v of
           Str msg \<Rightarrow>
             if startsWith msg ''Checksum mismatch'' then CHECKSUM_MISMATCH else UNPACK_FAILED
         | Exception e \<Rightarrow> NONE"
  have ms: "manifestSteps ?s0 = Inr (zip m [0..<length m])"
    using assms(3) by (simp add: manifestSteps_Some)
  have "\<exists>s'. unpackLoop oc (zip m [0..<length m]) ?s0 = (Some v, s') \<and> frame ?s0 s'"
    using assms(4,5,6) by (intro unpackLoop_rejects) simp_all
  then obtain s1 where
    l: "unpackLoop oc (zip m [0..<length m]) ?s0 = (Some v, s1)" and f: "frame ?s0 s1"
    by blast
  have u: "unpackImages oc ?s0 = (Some v, s1)"
    using ms l by (simp add: unpackImages_def)
  have st: "step s1 = UNPACKING" and er: "error s1 = NONE"
    using f assms(1,2) by (simp_all add: frame_def)
  have se: "stage_effect oc s
      = (case v of
           Str msg \<Rightarrow>
             if startsWith msg ''Checksum mismatch'' then s1\<lparr>error := CHECKSUM_MISMATCH\<rparr>
             else s1\<lparr>error := UNPACK_FAILED\<rparr>
         | Exception e \<Rightarrow> s1)"
    using assms(1,2) u by (cases v) (simp_all add: stage_effect_unfold Let_def)
  have 1: "error (stage_effect oc s) = ?e"
    and 2: "step (stage_effect oc s) = UNPACKING"
    unfolding se using st er by (cases v; simp)+
  have 3: "startsWith ''Checksum mismatch: expected abc got def'' ''Checksum mismatch''"
    by (simp add: startsWith_def)
  from 1 2 3 show ?thesis by (simp add: dispatch_fields)
qed

text \<open>
  The unpack of the first image of the example manifest rejects with an Error object:
  no error is set and the step stays UNPACKING. The unpack of the second image rejects
  with the checksum message, and with another message.
\<close>

theorem unpackImages_failure_error_witness:
  "error (stage_effect
            (resolving\<lparr>rejects := (\<lambda>n. if n = 0 then Some (Exception OtherError) else None)\<rparr>)
            (useFastboot\<lparr>step := UNPACKING, manifest := Some exampleManifest\<rparr>))
     = NONE
   \<and> step (stage_effect
            (resolving\<lparr>rejects := (\<lambda>n. if n = 0 then Some (Exception OtherError) else None)\<rparr>)
            (useFastboot\<lparr>step := UNPACKING, manifest := Some exampleManifest\<rparr>))
     = UNPACKING
   \<and> error (stage_effect
            (resolving\<lparr>rejects :=
               (\<lambda>n. if n = 1 then Some (Str ''Checksum mismatch: expected abc got def'')
                    else None)\<rparr>)
            (useFastboot\<lparr>step := UNPACKING, manifest := Some exampleManifest\<rparr>))
     = CHECKSUM_MISMATCH
   \<and> error (stage_effect
            (resolving\<lparr>rejects :=
               (\<lambda>n. if n = 1 then Some (Str ''Error unpacking archive'') else None)\<rparr>)
            (useFastboot\<lparr>step := UNPACKING, manifest := Some exampleManifest\<rparr>))
     = UNPACK_FAILED
   \<and> step (stage_effect
            (resolving\<lparr>rejects :=
               (\<lambda>n. if n = 1 then Some (Str ''Checksum mismatch: expected abc got def'')
                    else None)\<rparr>)
            (useFastboot\<lparr>step := UNPACKING, manifest := Some exampleManifest\<rparr>))
     = UNPACKING"
proof -
  let ?s = "useFastboot\<lparr>step := UNPACKING, manifest := Some exampleManifest\<rparr>"
  let ?object = "resolving\<lparr>rejects :=
               (\<lambda>n. if n = 0 then Some (Exception OtherError) else None)\<rparr>"
  let ?checksum = "resolving\<lparr>rejects :=
               (\<lambda>n. if n = 1 then Some (Str ''Checksum mismatch: expected abc got def'')
                    else None)\<rparr>"
  let ?other = "resolving\<lparr>rejects :=
               (\<lambda>n. if n = 1 then Some (Str ''Error unpacking archive'') else None)\<rparr>"
  have s: "step ?s = UNPACKING" "error ?s = NONE" "manifest ?s = Some exampleManifest"
    "(0::nat) < length exampleManifest" "(1::nat) < length exampleManifest"
    "length (issued ?s) = 0"
    by (simp_all add: useFastboot_def exampleManifest_def)
  from unpackImages_failure_error [of ?s exampleManifest 0 ?object "Exception OtherError"] s
  have 0: "error (stage_effect ?object ?s) = NONE"
    and 4: "step (stage_effect ?object ?s) = UNPACKING"
    by simp_all
  from unpackImages_failure_error
         [of ?s exampleManifest 1 ?checksum "Str ''Checksum mismatch: expected abc got def''"] s
  have 1: "error (stage_effect ?checksum ?s) = CHECKSUM_MISMATCH"
    and 3: "step (stage_effect ?checksum ?s) = UNPACKING"
    by (simp_all add: startsWith_def)
  from unpackImages_failure_error
         [of ?s exampleManifest 1 ?other "Str ''Error unpacking archive''"] s
  have 2: "error (stage_effect ?other ?s) = UNPACK_FAILED"
    by (simp add: startsWith_def)
  from 0 4 1 2 3 show ?thesis by blast
qed

text \<open>
  Claim C7. When \<^verbatim>\<open>initialize\<close> gets as far as parsing the manifest and the manifest
  is empty, it settles with false: the error becomes UNKNOWN, \<^verbatim>\<open>isInitialized\<close> stays
  false and the step does not change, also when the call is the one \<^verbatim>\<open>onContinue\<close>
  awaits. In every reachable session that is initialized the manifest is loaded
  and not empty.
\<close>

theorem initialize_empty_manifest:
  "(\<not> isInitialized s \<and> initializePromise s = None
      \<and> usb env \<and> worker env \<and> storage env \<and> imageWorker env \<and> loaded env = Some [] \<longrightarrow>
        fst (initialize env s) = False
        \<and> error (dispatch (Initialize env) s) = UNKNOWN
        \<and> \<not> isInitialized (dispatch (Initialize env) s)
        \<and> step (dispatch (Initialize env) s) = step s
        \<and> error (dispatch (Continue env) s) = UNKNOWN
        \<and> \<not> isInitialized (dispatch (Continue env) s)
        \<and> step (dispatch (Continue env) s) = step s)
   \<and> (reachable s \<and> isInitialized s \<longrightarrow> (\<exists>m. manifest s = Some m \<and> m \<noteq> []))"
proof -
  have 1: "\<not> isInitialized s \<and> initializePromise s = None
      \<and> usb env \<and> worker env \<and> storage env \<and> imageWorker env \<and> loaded env = Some [] \<longrightarrow>
        fst (initialize env s) = False
        \<and> error (dispatch (Initialize env) s) = UNKNOWN
        \<and> \<not> isInitialized (dispatch (Initialize env) s)
        \<and> step (dispatch (Initialize env) s) = step s
        \<and> error (dispatch (Continue env) s) = UNKNOWN
        \<and> \<not> isInitialized (dispatch (Continue env) s)
        \<and> step (dispatch (Continue env) s) = step s"
    by (simp add: dispatch_def initialize_def handleContinue_def Let_def error_effect_def)
  have 2: "reachable s \<and> isInitialized s \<longrightarrow> (\<exists>m. manifest s = Some m \<and> m \<noteq> [])"
    using reachable_initialized_manifest [of s] by blast
  from 1 2 show ?thesis by blast
qed

text \<open>
  A supported browser that loads an empty manifest, and the session after a successful
  \<^verbatim>\<open>initialize\<close>.
\<close>

theorem initialize_empty_manifest_witness:
  "error (dispatch (Initialize (supportedBrowser\<lparr>loaded := Some []\<rparr>)) useFastboot) = UNKNOWN
   \<and> \<not> isInitialized (dispatch (Initialize (supportedBrowser\<lparr>loaded := Some []\<rparr>)) useFastboot)
   \<and> step (dispatch (Continue (supportedBrowser\<lparr>loaded := Some []\<rparr>)) useFastboot) = READY
   \<and> isInitialized (dispatch (Initialize supportedBrowser) useFastboot)
   \<and> (\<exists>m. manifest (dispatch (Initialize supportedBrowser) useFastboot) = Some m \<and> m \<noteq> [])"
proof -
  let ?env = "supportedBrowser\<lparr>loaded := Some []\<rparr>"
  let ?s = "dispatch (Initialize supportedBrowser) useFastboot"
  have h: "\<not> isInitialized useFastboot" "initializePromise useFastboot = None"
    "usb ?env" "worker ?env" "storage ?env" "imageWorker ?env" "loaded ?env = Some []"
    "step useFastboot = READY"
    by (simp_all add: useFastboot_def supportedBrowser_def)
  have r: "reachable ?s" by (intro reachable.after reachable.start)
  have i: "isInitialized ?s"
    by (simp add: dispatch_def initialize_def useFastboot_def supportedBrowser_def
          exampleManifest_def)
  from initialize_empty_manifest [of useFastboot ?env] h
  have 1: "error (dispatch (Initialize ?env) useFastboot) = UNKNOWN"
    and 2: "\<not> isInitialized (dispatch (Initialize ?env) useFastboot)"
    and 3: "step (dispatch (Continue ?env) useFastboot) = READY"
    by simp_all
  from initialize_empty_manifest [of ?s] r i
  have 4: "\<exists>m. manifest ?s = Some m \<and> m \<noteq> []" by blast
  from 1 2 3 i 4 show ?thesis by blast
qed

text \<open>
  The effect on \<^verbatim>\<open>error\<close>. An event that sets the error, in a session that had none, ends
  with the progress -1 and the retry action set, the effect on \<^verbatim>\<open>error\<close> having run. A run
  of the stage effect with the error set puts the progress to -1, sends no request and
  leaves the step. A session reached by events in which the work of a stage is run to
  completion at once has, when its error is set, the progress -1 and the retry action
  set.
\<close>

lemma error_effect_forces_progress:
  "(error s \<noteq> NONE \<longrightarrow>
      session.progress (error_effect s) = - 1 \<and> onRetry (error_effect s))
   \<and> (error s = NONE \<and> error (dispatch ev s) \<noteq> NONE \<longrightarrow>
        session.progress (dispatch ev s) = - 1 \<and> onRetry (dispatch ev s))
   \<and> (reachable s \<and> error s \<noteq> NONE \<longrightarrow> session.progress s = - 1 \<and> onRetry s)
   \<and> (error s \<noteq> NONE \<longrightarrow>
        session.progress (stage_effect oc s) = - 1 \<and> issued (stage_effect oc s) = issued s
        \<and> step (stage_effect oc s) = step s)"
proof -
  have 0: "error s \<noteq> NONE \<longrightarrow>
      session.progress (error_effect s) = - 1 \<and> onRetry (error_effect s)"
    by (simp add: error_effect_def)
  have 1: "error s = NONE \<and> error (dispatch ev s) \<noteq> NONE \<longrightarrow>
      session.progress (dispatch ev s) = - 1 \<and> onRetry (dispatch ev s)"
    by (auto simp add: dispatch_def Let_def error_effect_def)
  have 3: "reachable s \<and> error s \<noteq> NONE \<longrightarrow> session.progress s = - 1 \<and> onRetry s"
    using reachable_error_progress [of s] by blast
  have 4: "error s \<noteq> NONE \<longrightarrow>
        session.progress (stage_effect oc s) = - 1 \<and> issued (stage_effect oc s) = issued s
        \<and> step (stage_effect oc s) = step s"
    by (simp add: stage_effect_error)
  from 0 1 3 4 show ?thesis by blast
qed

text \<open>
  The segments of \<^verbatim>\<open>eraseDevice\<close> have no guard on \<^verbatim>\<open>error\<close>: when \<^verbatim>\<open>erase:userdata\<close> has
  resolved the progress becomes 9/10, and when \<^verbatim>\<open>continue\<close> has resolved it becomes 1,
  whatever \<^verbatim>\<open>error\<close> is, and \<^verbatim>\<open>error\<close> is left as it is.
\<close>

lemma eraseDevice_ignores_error:
  "session.progress (eraseResolved s) = 9 / 10 \<and> error (eraseResolved s) = error s
   \<and> session.progress (rebootResolved s) = 1 \<and> error (rebootResolved s) = error s"
  by (simp add: eraseResolved_def rebootResolved_def)




end
